theory Spec2Isabelle
  imports Main
begin

chapter \<open>The shell of wwwterm: command interpreter, virtual file system, tab completion\<close>

text \<open>
  A shallow embedding of the class \<^verbatim>\<open>Shell\<close>: each method is a function over an
  explicit session state, a thrown \<^verbatim>\<open>TypeError\<close> is an outcome of its own, and file
  objects live in a store addressed by references.  The classes the shell imports
  (\<^verbatim>\<open>ShellCommand\<close>, \<^verbatim>\<open>ShellCommandResult\<close>, \<^verbatim>\<open>DirFile\<close>, \<^verbatim>\<open>TxtFile\<close>) and the
  functions of \<^verbatim>\<open>io.js\<close> are not among the sources; they are modelled from the
  specification, each marked where it is defined.
\<close>

section \<open>JavaScript string and array primitives used by the shell\<close>

text \<open>
  Strings are character lists.  The shell only ever uses the following primitives of
  \<^verbatim>\<open>String\<close> and \<^verbatim>\<open>Array\<close>: \<^verbatim>\<open>includes\<close>, \<^verbatim>\<open>indexOf\<close>,
  \<^verbatim>\<open>slice\<close>, \<^verbatim>\<open>trim\<close>, \<^verbatim>\<open>split\<close> on a one-character separator,
  \<^verbatim>\<open>join\<close> and \<^verbatim>\<open>replace\<close>.  \<^verbatim>\<open>indexOf\<close> is \<open>- 1\<close> when the pattern does not
  occur.
\<close>

fun js_indexOf_nat :: "string \<Rightarrow> string \<Rightarrow> nat option" where
  "js_indexOf_nat [] pat = (if pat = [] then Some 0 else None)"
| "js_indexOf_nat (c # cs) pat =
     (if take (length pat) (c # cs) = pat then Some 0
      else map_option Suc (js_indexOf_nat cs pat))"

definition js_indexOf :: "string \<Rightarrow> string \<Rightarrow> int" where
  "js_indexOf s pat = (case js_indexOf_nat s pat of None \<Rightarrow> - 1 | Some i \<Rightarrow> int i)"

definition js_includes :: "string \<Rightarrow> string \<Rightarrow> bool" where
  "js_includes s pat = (js_indexOf_nat s pat \<noteq> None)"

text \<open>\<^verbatim>\<open>s.slice(b)\<close> and \<^verbatim>\<open>s.slice(b, e)\<close>: a negative index counts from the end.\<close>

definition js_index :: "nat \<Rightarrow> int \<Rightarrow> nat" where
  "js_index len i = (if i < 0 then nat (int len + i) else min (nat i) len)"

definition js_slice_from :: "'a list \<Rightarrow> int \<Rightarrow> 'a list" where
  "js_slice_from xs b = drop (js_index (length xs) b) xs"

definition js_slice :: "'a list \<Rightarrow> int \<Rightarrow> int \<Rightarrow> 'a list" where
  "js_slice xs b e =
     (let b' = js_index (length xs) b; e' = js_index (length xs) e
      in take (e' - b') (drop b' xs))"

text \<open>\<^verbatim>\<open>s.trim()\<close> strips white space at both ends; of the white space characters
  the ASCII ones are modelled.\<close>

definition is_space :: "char \<Rightarrow> bool" where
  "is_space c = (c = CHR '' '' \<or> c = CHR 0x09 \<or> c = CHR 0x0A \<or> c = CHR 0x0B
                 \<or> c = CHR 0x0C \<or> c = CHR 0x0D)"

definition js_trim :: "string \<Rightarrow> string" where
  "js_trim s = rev (dropWhile is_space (rev (dropWhile is_space s)))"

text \<open>\<^verbatim>\<open>s.split(sep)\<close> for a separator of one character; the result is never empty.\<close>

fun js_split :: "char \<Rightarrow> string \<Rightarrow> string list" where
  "js_split sep [] = [[]]"
| "js_split sep (c # cs) =
     (if c = sep then [] # js_split sep cs
      else (case js_split sep cs of
              [] \<Rightarrow> [[c]]
            | w # ws \<Rightarrow> (c # w) # ws))"

fun js_join :: "string \<Rightarrow> string list \<Rightarrow> string" where
  "js_join sep [] = []"
| "js_join sep [w] = w"
| "js_join sep (w # v # ws) = w @ sep @ js_join sep (v # ws)"

text \<open>\<^verbatim>\<open>s.replace(/ /g, r)\<close> replaces every blank, \<^verbatim>\<open>s.replace(' ', r)\<close> the first one.\<close>

definition replace_all_blanks :: "string \<Rightarrow> string \<Rightarrow> string" where
  "replace_all_blanks r s = concat (map (\<lambda>c. if c = CHR '' '' then r else [c]) s)"

fun replace_first_blank :: "string \<Rightarrow> string \<Rightarrow> string" where
  "replace_first_blank r [] = []"
| "replace_first_blank r (c # cs) =
     (if c = CHR '' '' then r @ cs else c # replace_first_blank r cs)"

section \<open>The virtual file system\<close>

text \<open>
  File objects are JavaScript objects that refer to each other (a directory to its
  children, every node to its parent), so the model keeps them in a store: a list of
  objects, a reference being an index.  A property an object does not have
  (\<^verbatim>\<open>children\<close> of a text file, \<^verbatim>\<open>contents\<close> of a directory) is \<open>None\<close>;
  reading a property of \<^verbatim>\<open>undefined\<close> throws a \<^verbatim>\<open>TypeError\<close>.
\<close>

type_synonym ref = nat

datatype filetype = Dir | Txt

datatype js_error = TypeError

record fileobject =
  name :: string
  fullPath :: string
  filetype :: filetype
  parentRef :: "ref option"
  children :: "ref list option"
  contents :: "string list option"
  lastModified :: "nat option"

text \<open>
  Modelled from the spec: the classes \<^verbatim>\<open>DirFile\<close> and \<^verbatim>\<open>TxtFile\<close> of
  \<^verbatim>\<open>fileobject.js\<close> are not among the sources.  A directory is created with an empty
  ordered list of children, a text file with an empty content buffer; both take
  \<^verbatim>\<open>(name, path, filetype, parent)\<close>.
\<close>

definition DirFile :: "string \<Rightarrow> string \<Rightarrow> filetype \<Rightarrow> ref option \<Rightarrow> fileobject" where
  "DirFile n p t par =
     \<lparr>name = n, fullPath = p, filetype = t, parentRef = par,
      children = Some [], contents = None, lastModified = None\<rparr>"

definition TxtFile :: "string \<Rightarrow> string \<Rightarrow> filetype \<Rightarrow> ref option \<Rightarrow> fileobject" where
  "TxtFile n p t par =
     \<lparr>name = n, fullPath = p, filetype = t, parentRef = par,
      children = None, contents = Some [], lastModified = None\<rparr>"


section \<open>Command results and parsed commands\<close>

text \<open>
  Modelled from the spec: the class \<^verbatim>\<open>ShellCommandResult\<close> of \<^verbatim>\<open>shell-command.js\<close>
  is not among the sources.  A result is \<^verbatim>\<open>{ stdOut: string[], stdErr: string[],
  data?: FileNode }\<close>.  The shell calls the constructor with nothing, \<^verbatim>\<open>null\<close>, one
  string or an array of strings for either stream; as both streams are arrays of
  strings, a missing argument is the empty array and a string is the array holding it.
  Two results are combined by concatenating their streams in order.
\<close>

record ShellCommandResult =
  stdOut :: "string list"
  stdErr :: "string list"
  data :: "ref option"

datatype js_arg = Absent | Str string | Arr "string list"

fun to_lines :: "js_arg \<Rightarrow> string list" where
  "to_lines Absent = []"
| "to_lines (Str l) = [l]"
| "to_lines (Arr ls) = ls"

definition new_ShellCommandResult :: "js_arg \<Rightarrow> js_arg \<Rightarrow> ref option \<Rightarrow> ShellCommandResult" where
  "new_ShellCommandResult out err d = \<lparr>stdOut = to_lines out, stdErr = to_lines err, data = d\<rparr>"

definition combine :: "ShellCommandResult \<Rightarrow> ShellCommandResult \<Rightarrow> ShellCommandResult" where
  "combine res other =
     res\<lparr>stdOut := stdOut res @ stdOut other, stdErr := stdErr res @ stdErr other\<rparr>"

text \<open>
  Modelled from the spec: the class \<^verbatim>\<open>ShellCommand\<close> of \<^verbatim>\<open>shell-command.js\<close> is not
  among the sources.  The command body is tokenized on spaces, the first non-empty
  token is the command name and the remaining non-empty tokens are the arguments; a
  line with no non-space character has no command name.
\<close>

record ShellCommand =
  command :: "string option"
  args :: "string list"

definition new_ShellCommand :: "string \<Rightarrow> ShellCommand" where
  "new_ShellCommand input =
     (case filter (\<lambda>w. w \<noteq> []) (js_split CHR '' '' input) of
        [] \<Rightarrow> \<lparr>command = None, args = []\<rparr>
      | c # as \<Rightarrow> \<lparr>command = Some c, args = as\<rparr>)"

text \<open>A template literal prints a missing value as \<^verbatim>\<open>undefined\<close>.\<close>

definition template :: "string option \<Rightarrow> string" where
  "template v = (case v of None \<Rightarrow> ''undefined'' | Some w \<Rightarrow> w)"

section \<open>The shell session\<close>

text \<open>
  The display surface is an external collaborator: the model records what the shell
  hands to \<^verbatim>\<open>print\<close> and \<^verbatim>\<open>printInline\<close>, in order.  The rendering of a result
  (\<^verbatim>\<open>getDefaultOutput\<close>) is recorded as the result itself.  The editor child process
  is recorded by the arguments it is constructed with.  \<open>now\<close> is the reading of the
  environment's clock that \<^verbatim>\<open>new Date()\<close> returns.
\<close>

datatype output_line =
  Print string
| PrintInline "string list"
| PrintDefaultOutput ShellCommandResult

datatype vi_process = Vi "string list" "ref option"

record shell =
  heap :: "fileobject list"
  fileStructure :: ref
  currentDir :: ref
  user :: string
  inputString :: string
  bashHistory :: "string list"
  historyIndex :: nat
  tabPressed :: bool
  inputPromptElement :: string
  PS1Element :: string
  outputElement :: "output_line list"
  childProcess :: "vi_process option"
  now :: nat

datatype 'a outcome = Returns 'a shell | Throws js_error shell

definition dq :: string where
  "dq = [CHR 0x22]"

definition getPS1String :: "shell \<Rightarrow> string" where
  "getPS1String s =
     ''<span class='' @ dq @ ''user'' @ dq @ ''>'' @ user s @ ''@www.carlegbert.com:</span>'' @
     ''<span class='' @ dq @ ''path'' @ dq @ ''>'' @ fullPath (heap s ! currentDir s) @
     ''</span>$&nbsp;''"

subsection \<open>Path resolution and file creation\<close>

text \<open>
  \<^verbatim>\<open>findFile(dir, filepath, filetype)\<close>.  The \<^verbatim>\<open>forEach\<close> over the children keeps the
  last child that matches.  \<^verbatim>\<open>dir.children.forEach\<close> throws when \<^verbatim>\<open>dir\<close> has no
  \<^verbatim>\<open>children\<close>.  The first equation is the call with an empty path, where
  \<^verbatim>\<open>filepath[0]\<close> is \<^verbatim>\<open>undefined\<close> and equals no name.
\<close>

definition child_matches :: "shell \<Rightarrow> string \<Rightarrow> filetype option \<Rightarrow> ref \<Rightarrow> bool" where
  "child_matches s pathArg typeToFind child =
     (pathArg = name (heap s ! child) \<and>
      (typeToFind = None \<or> typeToFind = Some (filetype (heap s ! child))))"

definition forEach_found :: "shell \<Rightarrow> string \<Rightarrow> filetype option \<Rightarrow> ref list \<Rightarrow> ref option" where
  "forEach_found s pathArg typeToFind cs =
     fold (\<lambda>child found. if child_matches s pathArg typeToFind child then Some child else found)
       cs None"

fun findFile :: "shell \<Rightarrow> ref \<Rightarrow> string list \<Rightarrow> filetype option \<Rightarrow> js_error + ref option" where
  "findFile s dir [] ft =
     (if ft = Some Dir then Inr (Some dir)
      else (case children (heap s ! dir) of
              None \<Rightarrow> Inl TypeError
            | Some cs \<Rightarrow> Inr None))"
| "findFile s dir (pathArg # rest) ft =
     (if rest = [] \<and> pathArg = [] \<and> ft = Some Dir then Inr (Some dir)
      else
        (let typeToFind = (if rest = [] then ft else Some Dir);
             found =
               (if pathArg = ''.'' then Inr (Some dir)
                else if pathArg = ''..'' then Inr (parentRef (heap s ! dir))
                else if pathArg = ''~'' then Inr (Some (fileStructure s))
                else (case children (heap s ! dir) of
                        None \<Rightarrow> Inl TypeError
                      | Some cs \<Rightarrow> Inr (forEach_found s pathArg typeToFind cs)))
         in case found of
              Inl e \<Rightarrow> Inl e
            | Inr None \<Rightarrow> Inr None
            | Inr (Some f) \<Rightarrow> if rest = [] then Inr (Some f) else findFile s f rest ft))"

text \<open>
  \<^verbatim>\<open>newFile(filepath, filetype)\<close>.  The new object's reference is the next free index
  of the store.  \<^verbatim>\<open>filepath.slice(-1)[0]\<close> of an empty path is \<^verbatim>\<open>undefined\<close>; no
  caller passes one.
\<close>

definition newFile :: "shell \<Rightarrow> string list \<Rightarrow> filetype \<Rightarrow> ShellCommandResult outcome" where
  "newFile s filepath ft =
     (case (if length filepath = 1 then Inr (Some (currentDir s))
            else findFile s (currentDir s) (js_slice filepath 0 (- 1)) (Some Dir)) of
        Inl e \<Rightarrow> Throws e s
      | Inr None \<Rightarrow>
          Returns (new_ShellCommandResult Absent
                     (Str (js_join ''/'' (js_slice filepath 0 (- 1)) @ '': Directory not found''))
                     None) s
      | Inr (Some dir) \<Rightarrow>
          (let filename = (case js_slice_from filepath (- 1) of
                             [] \<Rightarrow> ''undefined'' | w # _ \<Rightarrow> w);
               pathStr = fullPath (heap s ! dir) @ ''/'' @ filename;
               file = (if ft = Dir then DirFile filename pathStr ft (Some dir)
                       else TxtFile filename pathStr ft (Some dir));
               r = length (heap s)
           in case children (heap s ! dir) of
                None \<Rightarrow> Throws TypeError s
              | Some cs \<Rightarrow>
                  Returns (new_ShellCommandResult Absent Absent (Some r))
                    (s\<lparr>heap := (heap s @ [file])
                                 [dir := (heap s ! dir)\<lparr>children := Some (cs @ [r])\<rparr>]\<rparr>)))"


subsection \<open>The commands\<close>

definition validCommands :: "string list" where
  "validCommands =
     [''clear'', ''pwd'', ''whoami'', ''cd'', ''ls'', ''cat'', ''touch'', ''mkdir'', ''echo'', ''vi'']"

definition filetype_str :: "filetype \<Rightarrow> string" where
  "filetype_str t = (case t of Dir \<Rightarrow> ''dir'' | Txt \<Rightarrow> ''txt'')"

definition clear :: "shell \<Rightarrow> ShellCommandResult outcome" where
  "clear s = Returns (new_ShellCommandResult Absent Absent None) (s\<lparr>outputElement := []\<rparr>)"

definition pwd :: "shell \<Rightarrow> ShellCommandResult outcome" where
  "pwd s = Returns (new_ShellCommandResult (Str (fullPath (heap s ! currentDir s))) Absent None) s"

definition whoami :: "shell \<Rightarrow> ShellCommandResult outcome" where
  "whoami s = Returns (new_ShellCommandResult (Str (user s)) Absent None) s"

definition cd :: "shell \<Rightarrow> ShellCommand \<Rightarrow> ShellCommandResult outcome" where
  "cd s shellCommand =
     (case (case args shellCommand of
              [] \<Rightarrow> Inr (Some (fileStructure s))
            | a # _ \<Rightarrow> findFile s (currentDir s) (js_split CHR ''/'' a) (Some Dir)) of
        Inl e \<Rightarrow> Throws e s
      | Inr (Some dir) \<Rightarrow>
          (let s1 = s\<lparr>currentDir := dir\<rparr>
           in Returns (new_ShellCommandResult Absent Absent None)
                (s1\<lparr>PS1Element := getPS1String s1\<rparr>))
      | Inr None \<Rightarrow>
          Returns (new_ShellCommandResult Absent
                     (Str (template (case args shellCommand of [] \<Rightarrow> None | a # _ \<Rightarrow> Some a)
                           @ '': directory not found'')) None) s)"

definition lsHelper :: "shell \<Rightarrow> ref \<Rightarrow> js_error + string" where
  "lsHelper s dir =
     (case children (heap s ! dir) of
        None \<Rightarrow> Inl TypeError
      | Some cs \<Rightarrow>
          Inr (fold (\<lambda>child res.
                       res @ ''<li class='' @ dq @ ''inline '' @ filetype_str (filetype (heap s ! child))
                           @ dq @ ''>'' @ name (heap s ! child) @ ''</li>'')
                 cs ''<div>'' @ ''</div>''))"

fun ls_forEach :: "shell \<Rightarrow> nat \<Rightarrow> string list \<Rightarrow> ShellCommandResult \<Rightarrow> js_error + ShellCommandResult" where
  "ls_forEach s n [] res = Inr res"
| "ls_forEach s n (arg # rest) res =
     (case findFile s (currentDir s) (js_split CHR ''/'' arg) (Some Dir) of
        Inl e \<Rightarrow> Inl e
      | Inr None \<Rightarrow>
          ls_forEach s n rest
            (res\<lparr>stdErr := stdErr res @
                    [''ls: cannot access '' @ arg @ '': no such file or directory'']\<rparr>)
      | Inr (Some dir) \<Rightarrow>
          (case lsHelper s dir of
             Inl e \<Rightarrow> Inl e
           | Inr listing \<Rightarrow>
               ls_forEach s n rest
                 (res\<lparr>stdOut := stdOut res @ [(if n > 1 then arg @ '':'' else []) @ listing]\<rparr>)))"

definition ls :: "shell \<Rightarrow> ShellCommand \<Rightarrow> ShellCommandResult outcome" where
  "ls s shellCommand =
     (let res = new_ShellCommandResult (Arr []) Absent None
      in if length (args shellCommand) = 0 then
           (case lsHelper s (currentDir s) of
              Inl e \<Rightarrow> Throws e s
            | Inr listing \<Rightarrow> Returns (res\<lparr>stdOut := stdOut res @ [listing]\<rparr>) s)
         else
           (case ls_forEach s (length (args shellCommand)) (args shellCommand) res of
              Inl e \<Rightarrow> Throws e s
            | Inr res' \<Rightarrow> Returns res' s))"

text \<open>
  \<^verbatim>\<open>res.stdOut.concat(file.contents)\<close>: concatenating a missing \<^verbatim>\<open>contents\<close> appends
  the one value \<^verbatim>\<open>undefined\<close>; every text file is created with a content buffer.
\<close>

fun cat_forEach :: "shell \<Rightarrow> string list \<Rightarrow> ShellCommandResult \<Rightarrow> js_error + ShellCommandResult" where
  "cat_forEach s [] res = Inr res"
| "cat_forEach s (arg # rest) res =
     (case findFile s (currentDir s) (js_split CHR ''/'' arg) None of
        Inl e \<Rightarrow> Inl e
      | Inr (Some file) \<Rightarrow>
          (if filetype (heap s ! file) = Dir then
             cat_forEach s rest
               (res\<lparr>stdErr := stdErr res @
                       [''cat: '' @ name (heap s ! file) @ '': Is a directory'']\<rparr>)
           else
             cat_forEach s rest
               (res\<lparr>stdOut := stdOut res @
                       (case contents (heap s ! file) of
                          None \<Rightarrow> [''undefined'']
                        | Some buf \<Rightarrow> buf)\<rparr>))
      | Inr None \<Rightarrow>
          cat_forEach s rest
            (res\<lparr>stdErr := stdErr res @
                    [''cat: '' @ arg @ '': No such file or directory'']\<rparr>))"

definition cat :: "shell \<Rightarrow> ShellCommand \<Rightarrow> ShellCommandResult outcome" where
  "cat s shellCommand =
     (let res = new_ShellCommandResult Absent Absent None
      in if length (args shellCommand) = 0 then Returns res s
         else (case cat_forEach s (args shellCommand) res of
                 Inl e \<Rightarrow> Throws e s
               | Inr res' \<Rightarrow> Returns res' s))"

fun touch_forEach :: "shell \<Rightarrow> string list \<Rightarrow> ShellCommandResult \<Rightarrow> ShellCommandResult outcome" where
  "touch_forEach s [] res = Returns res s"
| "touch_forEach s (arg # rest) res =
     (let path = js_split CHR ''/'' arg
      in case findFile s (currentDir s) path (Some Txt) of
           Inl e \<Rightarrow> Throws e s
         | Inr (Some file) \<Rightarrow>
             touch_forEach
               (s\<lparr>heap := (heap s)[file := (heap s ! file)\<lparr>lastModified := Some (now s)\<rparr>]\<rparr>)
               rest res
         | Inr None \<Rightarrow>
             (case newFile s path Txt of
                Throws e s' \<Rightarrow> Throws e s'
              | Returns newFileRes s' \<Rightarrow> touch_forEach s' rest (combine res newFileRes)))"

definition touch :: "shell \<Rightarrow> ShellCommand \<Rightarrow> ShellCommandResult outcome" where
  "touch s shellCommand =
     (let res = new_ShellCommandResult Absent Absent None
      in if length (args shellCommand) = 0 then Returns res s
         else touch_forEach s (args shellCommand) res)"

fun mkdir_forEach :: "shell \<Rightarrow> string list \<Rightarrow> ShellCommandResult \<Rightarrow> ShellCommandResult outcome" where
  "mkdir_forEach s [] res = Returns res s"
| "mkdir_forEach s (arg # rest) res =
     (let path = js_split CHR ''/'' arg
      in case findFile s (currentDir s) path (Some Dir) of
           Inl e \<Rightarrow> Throws e s
         | Inr (Some file) \<Rightarrow> mkdir_forEach s rest res
         | Inr None \<Rightarrow>
             (case newFile s path Dir of
                Throws e s' \<Rightarrow> Throws e s'
              | Returns newFileRes s' \<Rightarrow> mkdir_forEach s' rest (combine res newFileRes)))"

definition mkdir :: "shell \<Rightarrow> ShellCommand \<Rightarrow> ShellCommandResult outcome" where
  "mkdir s shellCommand =
     (let res = new_ShellCommandResult Absent Absent None
      in if length (args shellCommand) = 0 then Returns res s
         else mkdir_forEach s (args shellCommand) res)"

definition echo :: "shell \<Rightarrow> ShellCommand \<Rightarrow> ShellCommandResult outcome" where
  "echo s shellCommand =
     Returns (new_ShellCommandResult (Str (js_join '' '' (args shellCommand))) Absent None) s"

text \<open>\<^verbatim>\<open>shellCommand.args[0].split('/')\<close> throws when there is no argument.\<close>

definition vi :: "shell \<Rightarrow> ShellCommand \<Rightarrow> ShellCommandResult outcome" where
  "vi s shellCommand =
     (case args shellCommand of
        [] \<Rightarrow> Throws TypeError s
      | a # _ \<Rightarrow>
          (let fPath = js_split CHR ''/'' a
           in case findFile s (currentDir s) fPath (Some Txt) of
                Inl e \<Rightarrow> Throws e s
              | Inr file \<Rightarrow>
                  Returns (new_ShellCommandResult Absent Absent None)
                    (s\<lparr>childProcess := Some (Vi fPath file)\<rparr>)))"

text \<open>
  \<^verbatim>\<open>eval(`this.${shellCommand.command}(shellCommand)`)\<close>, reached only for a name in
  \<open>validCommands\<close>.
\<close>

definition eval_command :: "shell \<Rightarrow> string \<Rightarrow> ShellCommand \<Rightarrow> ShellCommandResult outcome" where
  "eval_command s c shellCommand =
     (if c = ''clear'' then clear s
      else if c = ''pwd'' then pwd s
      else if c = ''whoami'' then whoami s
      else if c = ''cd'' then cd s shellCommand
      else if c = ''ls'' then ls s shellCommand
      else if c = ''cat'' then cat s shellCommand
      else if c = ''touch'' then touch s shellCommand
      else if c = ''mkdir'' then mkdir s shellCommand
      else if c = ''echo'' then echo s shellCommand
      else vi s shellCommand)"

subsection \<open>Redirection and command execution\<close>

text \<open>
  The parts of \<^verbatim>\<open>redirect(inputString, pattern)\<close>: the tokens after the operator, the
  line handed to the inner \<^verbatim>\<open>executeCommand\<close>, and the write to the target that
  follows the inner command.
\<close>

definition redirect_afterSymbol :: "string \<Rightarrow> string \<Rightarrow> string list" where
  "redirect_afterSymbol line pattern =
     js_split CHR '' ''
       (js_trim (js_slice_from line (js_indexOf line pattern + int (length pattern))))"

definition redirect_otherArgs :: "string \<Rightarrow> string \<Rightarrow> string list" where
  "redirect_otherArgs line pattern =
     (let afterSymbol = redirect_afterSymbol line pattern
      in if length afterSymbol = 1 then [] else js_slice_from afterSymbol (int (length pattern)))"

definition redirect_newInput :: "string \<Rightarrow> string \<Rightarrow> string" where
  "redirect_newInput line pattern =
     js_slice line 0 (js_indexOf line pattern)
       @ js_join '' '' (redirect_otherArgs line pattern)"

definition redirect_assign :: "shell \<Rightarrow> string \<Rightarrow> ShellCommandResult \<Rightarrow> ref \<Rightarrow> ShellCommandResult outcome" where
  "redirect_assign s pattern res file =
     (if pattern = ''>'' then
        Returns (new_ShellCommandResult Absent (Arr (stdErr res)) None)
          (s\<lparr>heap := (heap s)[file := (heap s ! file)\<lparr>contents := Some (stdOut res)\<rparr>]\<rparr>)
      else
        (case contents (heap s ! file) of
           None \<Rightarrow> Throws TypeError s
         | Some old \<Rightarrow>
             Returns (new_ShellCommandResult Absent (Arr (stdErr res)) None)
               (s\<lparr>heap := (heap s)[file := (heap s ! file)\<lparr>contents := Some (old @ stdOut res)\<rparr>]\<rparr>)))"

definition redirect_write :: "shell \<Rightarrow> string \<Rightarrow> ShellCommandResult \<Rightarrow> string list \<Rightarrow> ShellCommandResult outcome" where
  "redirect_write s pattern res afterSymbol =
     (let filepath = (case afterSymbol of [] \<Rightarrow> ''undefined'' | w # _ \<Rightarrow> w)
      in case findFile s (currentDir s) [filepath] (Some Txt) of
           Inl e \<Rightarrow> Throws e s
         | Inr (Some file) \<Rightarrow> redirect_assign s pattern res file
         | Inr None \<Rightarrow>
             (case newFile s [filepath] Txt of
                Throws e s' \<Rightarrow> Throws e s'
              | Returns created s' \<Rightarrow>
                  (case data created of
                     None \<Rightarrow>
                       Returns (new_ShellCommandResult Absent
                                  (Str (''bash: '' @ filepath @ '': No such file or directory''))
                                  None) s'
                   | Some file \<Rightarrow> redirect_assign s' pattern res file)))"

text \<open>
  The line handed to the inner command is shorter than the line it is cut from, so the
  mutual recursion of \<^verbatim>\<open>executeCommand\<close> and \<^verbatim>\<open>redirect\<close> ends.
\<close>

lemma js_indexOf_nat_bound:
  "js_indexOf_nat s pat = Some i \<Longrightarrow> i + length pat \<le> length s"
proof (induction s arbitrary: i)
  case Nil
  then show ?case by (simp split: if_splits)
next
  case (Cons c cs)
  show ?case
  proof (cases "take (length pat) (c # cs) = pat")
    case True
    then have "length (take (length pat) (c # cs)) = length pat"
      by simp
    then have "length pat \<le> length (c # cs)"
      by (simp only: length_take)
    with True Cons.prems show ?thesis by simp
  next
    case False
    with Cons.prems obtain j where "js_indexOf_nat cs pat = Some j" "i = Suc j"
      by auto
    with Cons.IH show ?thesis by fastforce
  qed
qed

lemma length_js_trim: "length (js_trim s) \<le> length s"
  unfolding js_trim_def
  by (metis length_dropWhile_le length_rev order_trans)

lemma js_split_neq_Nil: "js_split sep s \<noteq> []"
  by (induction s) (auto split: list.splits)

lemma js_join_split: "js_join [sep] (js_split sep s) = s"
proof (induction s)
  case Nil
  then show ?case by simp
next
  case (Cons c cs)
  then show ?case
    by (cases "js_split sep cs"; cases "tl (js_split sep cs)") (auto simp: js_split_neq_Nil)
qed

lemma length_js_join_tl: "length (js_join sep (tl ws)) \<le> length (js_join sep ws)"
proof (cases ws)
  case Nil
  then show ?thesis by simp
next
  case (Cons w vs)
  then show ?thesis by (cases vs) simp_all
qed

lemma length_js_join_drop: "length (js_join sep (drop k ws)) \<le> length (js_join sep ws)"
proof (induction k)
  case 0
  then show ?case by simp
next
  case (Suc k)
  have "drop (Suc k) ws = tl (drop k ws)"
    by (simp add: drop_Suc tl_drop)
  then show ?case
    using Suc length_js_join_tl [of sep "drop k ws"] by simp
qed

lemma js_slice_from_nat: "js_slice_from xs (int k) = drop k xs"
  by (cases "k \<le> length xs") (simp_all add: js_slice_from_def js_index_def min_def)

lemma js_slice_0_nat: "js_slice xs 0 (int k) = take k xs"
  by (cases "k \<le> length xs") (simp_all add: js_slice_def js_index_def min_def)

lemma length_redirect_newInput:
  assumes "js_includes line pattern" and "pattern \<noteq> []"
  shows "length (redirect_newInput line pattern) < length line"
proof -
  from assms(1) obtain i where i: "js_indexOf_nat line pattern = Some i"
    by (auto simp: js_includes_def)
  then have bound: "i + length pattern \<le> length line"
    by (rule js_indexOf_nat_bound)
  have idx: "js_indexOf line pattern = int i"
    by (simp add: js_indexOf_def i)
  let ?rest = "drop (i + length pattern) line"
  let ?after = "js_split CHR '' '' (js_trim ?rest)"
  have after: "redirect_afterSymbol line pattern = ?after"
    using js_slice_from_nat [of line "i + length pattern"]
    by (simp add: redirect_afterSymbol_def idx)
  have "length (js_join '' '' (redirect_otherArgs line pattern)) \<le> length (js_join '' '' ?after)"
    using length_js_join_drop [of "'' ''" "length pattern" ?after]
    by (simp add: redirect_otherArgs_def after Let_def js_slice_from_nat)
  also have "\<dots> = length (js_trim ?rest)"
    using js_join_split [of "CHR '' ''" "js_trim ?rest"] by simp
  also have "\<dots> \<le> length ?rest"
    by (rule length_js_trim)
  finally have "length (js_join '' '' (redirect_otherArgs line pattern)) \<le> length line - (i + length pattern)"
    by simp
  moreover have "length (js_slice line 0 (js_indexOf line pattern)) \<le> i"
    by (simp add: idx js_slice_0_nat)
  moreover have "length (redirect_newInput line pattern) =
      length (js_slice line 0 (js_indexOf line pattern))
        + length (js_join '' '' (redirect_otherArgs line pattern))"
    by (simp add: redirect_newInput_def)
  moreover have "0 < length pattern"
    using assms(2) by simp
  ultimately show ?thesis
    using bound by linarith
qed


text \<open>
  \<^verbatim>\<open>executeCommand(inputString)\<close>, with the body of \<^verbatim>\<open>redirect\<close> in place of the two
  calls of it (\<open>redirect\<close> itself follows, and \<open>executeCommand_redirect\<close> shows that they
  agree).
\<close>

definition syntax_error :: ShellCommandResult where
  "syntax_error = new_ShellCommandResult (Arr []) (Str ''Syntax error'') None"

definition run_ShellCommand :: "shell \<Rightarrow> ShellCommand \<Rightarrow> ShellCommandResult outcome" where
  "run_ShellCommand s shellCommand =
     (case command shellCommand of
        None \<Rightarrow>
          Returns (new_ShellCommandResult (Arr [])
                     (Str (template None @ '': command not found'')) None) s
      | Some c \<Rightarrow>
          if c \<notin> set validCommands then
            Returns (new_ShellCommandResult (Arr [])
                       (Str (template (Some c) @ '': command not found'')) None) s
          else eval_command s c shellCommand)"

function executeCommand :: "shell \<Rightarrow> string \<Rightarrow> ShellCommandResult outcome" where
  "executeCommand s line =
     (if js_includes line ''>>'' then
        (if length (redirect_afterSymbol line ''>>'') = 0 then Returns syntax_error s
         else (case executeCommand s (redirect_newInput line ''>>'') of
                 Throws e s' \<Rightarrow> Throws e s'
               | Returns res s' \<Rightarrow>
                   redirect_write s' ''>>'' res (redirect_afterSymbol line ''>>'')))
      else if js_includes line ''>'' then
        (if length (redirect_afterSymbol line ''>'') = 0 then Returns syntax_error s
         else (case executeCommand s (redirect_newInput line ''>'') of
                 Throws e s' \<Rightarrow> Throws e s'
               | Returns res s' \<Rightarrow>
                   redirect_write s' ''>'' res (redirect_afterSymbol line ''>'')))
      else run_ShellCommand s (new_ShellCommand line))"
  by pat_completeness auto
termination
  by (relation "measure (\<lambda>(s, line). length line)")
     (simp_all add: length_redirect_newInput)

definition redirect :: "shell \<Rightarrow> string \<Rightarrow> string \<Rightarrow> ShellCommandResult outcome" where
  "redirect s line pattern =
     (let afterSymbol = redirect_afterSymbol line pattern
      in if length afterSymbol = 0 then Returns syntax_error s
         else (case executeCommand s (redirect_newInput line pattern) of
                 Throws e s' \<Rightarrow> Throws e s'
               | Returns res s' \<Rightarrow> redirect_write s' pattern res afterSymbol))"

declare executeCommand.simps [simp del]

subsection \<open>Tab completion\<close>

text \<open>
  \<^verbatim>\<open>getValidTypes(cmdName)\<close>: the lookup in the object literal, for the names it holds
  (an empty array is a value like any other; only a missing entry gives the default).
\<close>

definition getValidTypes :: "string \<Rightarrow> filetype list" where
  "getValidTypes cmdName =
     (if cmdName = ''ls'' then [Dir]
      else if cmdName = ''cd'' then [Dir]
      else if cmdName = ''mkdir'' then [Dir]
      else if cmdName = ''whoami'' then []
      else if cmdName = ''pwd'' then []
      else if cmdName = ''clear'' then []
      else if cmdName = ''cat'' then [Txt]
      else if cmdName = ''>'' then [Txt]
      else if cmdName = ''vi'' then [Txt]
      else [Dir, Txt])"

definition filterAutoCompleteOptions :: "string \<Rightarrow> string list \<Rightarrow> string list" where
  "filterAutoCompleteOptions partial options =
     (let len = length partial
      in filter (\<lambda>opt. length opt \<ge> len \<and> js_slice opt 0 (int len) = partial) options)"

text \<open>
  Modelled from the spec: \<^verbatim>\<open>getContentsByTypes\<close> is a method of the directory class,
  which is not among the sources.  It returns the children whose type is among the
  given types, in the directory's stored order.
\<close>

definition getContentsByTypes :: "shell \<Rightarrow> ref \<Rightarrow> filetype list \<Rightarrow> js_error + ref list" where
  "getContentsByTypes s dir filetypes =
     (case children (heap s ! dir) of
        None \<Rightarrow> Inl TypeError
      | Some cs \<Rightarrow> Inr (filter (\<lambda>f. filetype (heap s ! f) \<in> set filetypes) cs))"

text \<open>
  \<^verbatim>\<open>getAutocompleteFiles(partial, filetypes)\<close>.  The result of \<^verbatim>\<open>findFile\<close> is used
  as it comes: calling a method of \<^verbatim>\<open>null\<close> throws.
\<close>

definition getAutocompleteFiles :: "shell \<Rightarrow> string \<Rightarrow> filetype list \<Rightarrow> js_error + string list" where
  "getAutocompleteFiles s partial filetypes =
     (let partialAsArray = js_split CHR ''/'' partial;
          partialName = (case js_slice_from partialAsArray (- 1) of
                           [] \<Rightarrow> ''undefined'' | w # _ \<Rightarrow> w);
          dirPath = js_slice partialAsArray 0 (- 1)
      in case findFile s (currentDir s) dirPath (Some Dir) of
           Inl e \<Rightarrow> Inl e
         | Inr None \<Rightarrow> Inl TypeError
         | Inr (Some dir) \<Rightarrow>
             (case getContentsByTypes s dir filetypes of
                Inl e \<Rightarrow> Inl e
              | Inr fileOptions \<Rightarrow>
                  Inr (filterAutoCompleteOptions partialName
                         (map (\<lambda>f. if filetype (heap s ! f) = Dir
                                    then name (heap s ! f) @ ''/''
                                    else name (heap s ! f))
                            fileOptions))))"

definition printAutoCompleteOptions :: "shell \<Rightarrow> string list \<Rightarrow> shell" where
  "printAutoCompleteOptions s options =
     (if tabPressed s then
        s\<lparr>outputElement := outputElement s
             @ [Print (getPS1String s @ inputString s), PrintInline options]\<rparr>
      else s\<lparr>tabPressed := True\<rparr>)"

definition executeAutoComplete :: "shell \<Rightarrow> string \<Rightarrow> string \<Rightarrow> shell" where
  "executeAutoComplete s partial complete =
     (let splitPartial = js_split CHR ''/'' partial;
          wordPartial = (if splitPartial = [] then ''undefined''
                         else splitPartial ! (length splitPartial - 1));
          completion = js_slice_from complete (int (length wordPartial))
      in s\<lparr>inputString := inputString s @ completion,
            inputPromptElement := inputPromptElement s @ completion\<rparr>)"

text \<open>
  \<^verbatim>\<open>handleTab()\<close> in two parts: the word to complete with its candidates, and what is
  done with them.
\<close>

definition tab_options :: "shell \<Rightarrow> js_error + string \<times> string list" where
  "tab_options s =
     (let spaceAtEnd = (inputString s \<noteq> [] \<and> last (inputString s) = CHR '' '');
          cmd = new_ShellCommand (inputString s)
      in case command cmd of
           None \<Rightarrow> Inr ([], validCommands)
         | Some c \<Rightarrow>
             if c = [] then Inr ([], validCommands)
             else if \<not> spaceAtEnd \<and> length (args cmd) = 0 then
               Inr (c, filterAutoCompleteOptions c validCommands)
             else
               (let partial = (if args cmd = [] then [] else args cmd ! (length (args cmd) - 1))
                in case getAutocompleteFiles s partial (getValidTypes c) of
                     Inl e \<Rightarrow> Inl e
                   | Inr options \<Rightarrow>
                       if length options = 0 then
                         (case getAutocompleteFiles s partial [Dir] of
                            Inl e \<Rightarrow> Inl e
                          | Inr options' \<Rightarrow> Inr (partial, options'))
                       else Inr (partial, options)))"

definition handleTab :: "shell \<Rightarrow> unit outcome" where
  "handleTab s =
     (case tab_options s of
        Inl e \<Rightarrow> Throws e s
      | Inr (partial, options) \<Rightarrow>
          if length options = 1 then Returns () (executeAutoComplete s partial (options ! 0))
          else if length options > 1 then Returns () (printAutoCompleteOptions s options)
          else Returns () s)"

subsection \<open>Keystrokes\<close>

text \<open>
  Modelled from the spec: \<^verbatim>\<open>getChar\<close> of \<^verbatim>\<open>io.js\<close> is not among the sources.  The
  keystroke source delivers a normalized key event \<^verbatim>\<open>{ code, character }\<close>:
  \<open>which\<close> is the key code and \<open>character\<close> what \<^verbatim>\<open>getChar(event)\<close> returns.
\<close>

record key_event =
  which :: nat
  character :: string

text \<open>
  \<^verbatim>\<open>bashHistory[historyIndex]\<close>: outside the array the value is \<^verbatim>\<open>undefined\<close>, which
  the model prints as a template literal would.  The read of the down arrow is in range by
  its guard, the read of the up arrow as long as the cursor is within
  \<open>0..length bashHistory\<close> (\<open>shellKeystroke_history\<close> below).
\<close>

definition history_entry :: "shell \<Rightarrow> nat \<Rightarrow> string" where
  "history_entry s i = (if i < length (bashHistory s) then bashHistory s ! i else ''undefined'')"

definition handleEnter :: "shell \<Rightarrow> unit outcome" where
  "handleEnter s =
     (let finish = (\<lambda>s'. s'\<lparr>inputString := [], inputPromptElement := [],
                              historyIndex := length (bashHistory s')\<rparr>)
      in if list_all (\<lambda>c. c = CHR '' '') (inputString s) then
           Returns () (finish (s\<lparr>outputElement := outputElement s @ [Print (getPS1String s)]\<rparr>))
         else
           (let s1 = s\<lparr>outputElement := outputElement s
                         @ [Print (getPS1String s @ replace_first_blank ''&nbsp;'' (inputString s))]\<rparr>;
                s2 = s1\<lparr>bashHistory := bashHistory s1 @ [inputString s1]\<rparr>
            in case executeCommand s2 (inputString s2) of
                 Throws e s3 \<Rightarrow> Throws e s3
               | Returns res s3 \<Rightarrow>
                   Returns ()
                     (finish (s3\<lparr>outputElement := outputElement s3 @ [PrintDefaultOutput res]\<rparr>))))"

definition shellKeystroke :: "shell \<Rightarrow> key_event \<Rightarrow> unit outcome" where
  "shellKeystroke s event =
     (if which event = 13 then handleEnter (s\<lparr>tabPressed := False\<rparr>)
      else if which event = 8 then
        (let s1 = s\<lparr>tabPressed := False\<rparr>;
             s2 = s1\<lparr>inputString := js_slice (inputString s1) 0 (int (length (inputString s1)) - 1)\<rparr>
         in Returns () (s2\<lparr>inputPromptElement := replace_all_blanks ''&nbsp;'' (inputString s2)\<rparr>))
      else if which event = 38 \<and> historyIndex s > 0 then
        (let s1 = s\<lparr>tabPressed := False\<rparr>;
             s2 = s1\<lparr>historyIndex := historyIndex s1 - 1\<rparr>;
             s3 = s2\<lparr>inputString := history_entry s2 (historyIndex s2)\<rparr>
         in Returns () (s3\<lparr>inputPromptElement := inputString s3\<rparr>))
      else if which event = 40 \<and> historyIndex s < length (bashHistory s) then
        (let s1 = s\<lparr>tabPressed := False\<rparr>;
             s2 = s1\<lparr>historyIndex := historyIndex s1 + 1\<rparr>;
             s3 = (if historyIndex s2 = length (bashHistory s2) then s2\<lparr>inputString := []\<rparr>
                   else s2\<lparr>inputString := history_entry s2 (historyIndex s2)\<rparr>)
         in Returns () (s3\<lparr>inputPromptElement := inputString s3\<rparr>))
      else if which event = 9 then handleTab s
      else
        (let s1 = s\<lparr>tabPressed := False\<rparr>;
             k = character event;
             s2 = s1\<lparr>inputString := inputString s1 @ k\<rparr>;
             kSpaceAdjusted = (if k = '' '' then ''&nbsp;'' else k)
         in Returns () (s2\<lparr>inputPromptElement := inputPromptElement s2 @ kSpaceAdjusted\<rparr>)))"

section \<open>Sessions used as concrete inputs\<close>

text \<open>
  The constructor \<^verbatim>\<open>new Shell(fileStructure)\<close>; the three page elements start empty.
  \<open>root_only\<close> is a new session over a file system that holds the root directory alone:
  the root has no parent and an empty name.
\<close>

definition new_Shell :: "fileobject list \<Rightarrow> ref \<Rightarrow> shell" where
  "new_Shell store root =
     \<lparr>heap = store, fileStructure = root, currentDir = root, user = ''guest'',
      inputString = [], bashHistory = [], historyIndex = 0, tabPressed = False,
      inputPromptElement = [], PS1Element = [], outputElement = [], childProcess = None,
      now = 0\<rparr>"

definition root_only :: shell where
  "root_only = new_Shell [DirFile [] [] Dir None] 0"

fun state_of :: "'a outcome \<Rightarrow> shell" where
  "state_of (Returns r s) = s"
| "state_of (Throws e s) = s"

fun result_of :: "'a outcome \<Rightarrow> 'a option" where
  "result_of (Returns r s) = Some r"
| "result_of (Throws e s) = None"

text \<open>The state after a sequence of lines, each handed to \<open>executeCommand\<close>.\<close>

definition after_lines :: "shell \<Rightarrow> string list \<Rightarrow> shell" where
  "after_lines s lines = fold (\<lambda>l s'. state_of (executeCommand s' l)) lines s"

text \<open>The names of the children of a directory, in stored order.\<close>

definition child_names :: "shell \<Rightarrow> ref \<Rightarrow> string list" where
  "child_names s dir =
     (case children (heap s ! dir) of
        None \<Rightarrow> []
      | Some cs \<Rightarrow> map (\<lambda>c. name (heap s ! c)) cs)"

section \<open>Redirection: what the code does at the inputs the spec describes\<close>

text \<open>
  C3.  The spec: the inner command is the line without the redirect clause, with every
  token that followed the target appended back.  The code cuts the tokens after the
  operator with \<^verbatim>\<open>afterSymbol.slice(pattern.length)\<close>: for \<^verbatim>\<open>>>\<close> that is
  \<^verbatim>\<open>slice(2)\<close>, which drops the first token after the target as well.  At
  \<^verbatim>\<open>echo a >> f.txt b c\<close> the inner command is \<^verbatim>\<open>echo a c\<close> and the file receives
  \<^verbatim>\<open>a c\<close>, while with \<^verbatim>\<open>>\<close> it is \<^verbatim>\<open>echo a b c\<close>.
\<close>

theorem append_redirect_drops_first_token:
  "redirect_newInput ''echo a >> f.txt b c'' ''>>'' = ''echo a c''
   \<and> redirect_newInput ''echo a > f.txt b c'' ''>'' = ''echo a b c''
   \<and> map_option stdOut
         (result_of (executeCommand (after_lines root_only [''echo a >> f.txt b c''])
                       ''cat f.txt'')) = Some [''a c'']"
  by code_simp

text \<open>
  C4.  The spec: when the directory part of the target is invalid, the result reports
  \<^verbatim>\<open>no such file or directory\<close> and the output is dropped.  The code hands the
  target to \<^verbatim>\<open>findFile\<close> and \<^verbatim>\<open>newFile\<close> as the one-segment path
  \<^verbatim>\<open>[filepath]\<close>, never split at \<^verbatim>\<open>/\<close>, so \<^verbatim>\<open>newFile\<close> always creates in the
  current directory: at \<^verbatim>\<open>echo hi > nodir/f.txt\<close>, with no directory \<^verbatim>\<open>nodir\<close>,
  the result has no error line and the current directory gets a text file whose name is
  \<^verbatim>\<open>nodir/f.txt\<close>, holding the output (a file that \<^verbatim>\<open>cat nodir/f.txt\<close> does not
  find).
\<close>

theorem redirect_into_missing_directory_creates_file:
  "result_of (executeCommand root_only ''echo hi > nodir/f.txt'')
     = Some \<lparr>stdOut = [], stdErr = [], data = None\<rparr>
   \<and> child_names (after_lines root_only [''echo hi > nodir/f.txt'']) 0 = [''nodir/f.txt'']
   \<and> contents (heap (after_lines root_only [''echo hi > nodir/f.txt'']) ! 1) = Some [''hi'']
   \<and> result_of (executeCommand (after_lines root_only [''echo hi > nodir/f.txt''])
                  ''cat nodir/f.txt'')
       = Some \<lparr>stdOut = [],
                stdErr = [''cat: nodir/f.txt: No such file or directory''], data = None\<rparr>"
  by code_simp

text \<open>
  C5.  The spec: an operator followed by no token is a syntax error and no file is
  created.  The code tests \<^verbatim>\<open>afterSymbol.length === 0\<close>, but \<^verbatim>\<open>split\<close> never
  returns an empty array (\<^verbatim>\<open>''.split(' ')\<close> is \<^verbatim>\<open>['']\<close>): at \<^verbatim>\<open>echo hi >\<close> the
  result has no error line and a text file with the empty name is created in the
  current directory, holding the output.
\<close>

theorem redirect_without_target_creates_nameless_file:
  "redirect_afterSymbol ''echo hi >'' ''>'' = [[]]
   \<and> executeCommand root_only ''echo hi >'' =
       Returns \<lparr>stdOut = [], stdErr = [], data = None\<rparr>
         (root_only\<lparr>heap :=
            [(DirFile [] [] Dir None)\<lparr>children := Some [1]\<rparr>,
             (TxtFile [] ''/'' Txt (Some 0))\<lparr>contents := Some [''hi'']\<rparr>]\<rparr>)"
  by code_simp

section \<open>Thrown faults\<close>

text \<open>
  C8.  The spec: every error is a stderr line of a result, never a thrown fault.  The
  code throws in two places that the claim cites.  \<^verbatim>\<open>vi\<close> reads
  \<^verbatim>\<open>shellCommand.args[0].split('/')\<close> without the \<^verbatim>\<open>args.length === 0\<close> test its
  sibling commands make, so the line \<^verbatim>\<open>vi\<close> throws a \<^verbatim>\<open>TypeError\<close>; thrown out of
  the Enter keystroke, it leaves the line in the history and in the buffer, with the
  history cursor not reset.  \<^verbatim>\<open>getAutocompleteFiles\<close> calls a method of what
  \<^verbatim>\<open>findFile\<close> returns without testing for \<^verbatim>\<open>null\<close>, so a tab press on
  \<^verbatim>\<open>ls nope/x\<close>, with no directory \<^verbatim>\<open>nope\<close>, throws as well.
\<close>

theorem vi_and_tab_completion_throw:
  "executeCommand root_only ''vi'' = Throws TypeError root_only
   \<and> shellKeystroke (root_only\<lparr>inputString := ''vi''\<rparr>) \<lparr>which = 13, character = []\<rparr>
       = Throws TypeError
           (root_only\<lparr>inputString := ''vi'', bashHistory := [''vi''],
              outputElement := [Print (getPS1String root_only @ ''vi'')]\<rparr>)
   \<and> shellKeystroke (root_only\<lparr>inputString := ''ls nope/x''\<rparr>) \<lparr>which = 9, character = []\<rparr>
       = Throws TypeError (root_only\<lparr>inputString := ''ls nope/x''\<rparr>)"
  by code_simp

section \<open>Path resolution\<close>

text \<open>
  A reference has children when it lies in the store and the object there has a
  \<^verbatim>\<open>children\<close> array.  In a store with \<open>dirs_ok\<close> the root has children, every parent
  reference leads to an object with children, and so does every child of type
  \<^verbatim>\<open>dir\<close>: the objects \<^verbatim>\<open>findFile\<close> descends into are directories.
\<close>

definition has_children :: "shell \<Rightarrow> ref \<Rightarrow> bool" where
  "has_children s r = (r < length (heap s) \<and> children (heap s ! r) \<noteq> None)"

definition dirs_ok :: "shell \<Rightarrow> bool" where
  "dirs_ok s =
     (has_children s (fileStructure s) \<and>
      list_all
        (\<lambda>r. (case parentRef (heap s ! r) of None \<Rightarrow> True | Some p \<Rightarrow> has_children s p) \<and>
              (case children (heap s ! r) of
                 None \<Rightarrow> True
               | Some cs \<Rightarrow> list_all (\<lambda>c. filetype (heap s ! c) \<noteq> Dir \<or> has_children s c) cs))
        [0..<length (heap s)])"

text \<open>
  Resolution as the spec words it.  One segment: \<^verbatim>\<open>.\<close> is the directory itself,
  \<^verbatim>\<open>..\<close> its parent, \<^verbatim>\<open>~\<close> the root, any other segment the child of that name
  (the last one in stored order, should several carry it), of the wanted type when one
  is given.  A path: every segment but the last must resolve to a directory, the last
  one is resolved with the required type, and a failed hop fails the whole resolution.
  \<open>resolve_claimed\<close> is the claim as stated; \<open>resolve_amended\<close> adds the rule of the
  code's first test, that an empty last segment with required type \<^verbatim>\<open>dir\<close> is the
  directory reached so far.
\<close>

definition resolve_segment :: "shell \<Rightarrow> ref \<Rightarrow> string \<Rightarrow> filetype option \<Rightarrow> ref option" where
  "resolve_segment s cur seg want =
     (if seg = ''.'' then Some cur
      else if seg = ''..'' then parentRef (heap s ! cur)
      else if seg = ''~'' then Some (fileStructure s)
      else (case children (heap s ! cur) of
              None \<Rightarrow> None
            | Some cs \<Rightarrow>
                List.find (\<lambda>c. name (heap s ! c) = seg \<and>
                               (case want of None \<Rightarrow> True | Some t \<Rightarrow> filetype (heap s ! c) = t))
                  (rev cs)))"

definition walk :: "shell \<Rightarrow> ref \<Rightarrow> string list \<Rightarrow> ref option" where
  "walk s start segs =
     foldl (\<lambda>cur seg. case cur of None \<Rightarrow> None | Some d \<Rightarrow> resolve_segment s d seg (Some Dir))
       (Some start) segs"

definition resolve_claimed :: "shell \<Rightarrow> ref \<Rightarrow> string list \<Rightarrow> filetype option \<Rightarrow> ref option" where
  "resolve_claimed s start segs want =
     (case walk s start (butlast segs) of
        None \<Rightarrow> None
      | Some d \<Rightarrow> resolve_segment s d (last segs) want)"

definition resolve_amended :: "shell \<Rightarrow> ref \<Rightarrow> string list \<Rightarrow> filetype option \<Rightarrow> ref option" where
  "resolve_amended s start segs want =
     (case walk s start (butlast segs) of
        None \<Rightarrow> None
      | Some d \<Rightarrow>
          if last segs = [] \<and> want = Some Dir then Some d
          else resolve_segment s d (last segs) want)"


text \<open>A session with the tree \<^verbatim>\<open>/a/b/f.txt\<close>, built by the shell's own commands.\<close>

definition tree_session :: shell where
  "tree_session = after_lines root_only [''mkdir a'', ''mkdir a/b'', ''touch a/b/f.txt'']"

lemma find_append: "List.find P (xs @ ys) = (case List.find P xs of None \<Rightarrow> List.find P ys | Some x \<Rightarrow> Some x)"
  by (induction xs) auto

lemma fold_found:
  "fold (\<lambda>c found. if P c then Some c else found) cs acc =
     (case List.find P (rev cs) of None \<Rightarrow> acc | Some c \<Rightarrow> Some c)"
proof (induction cs arbitrary: acc)
  case Nil
  then show ?case by simp
next
  case (Cons c cs)
  show ?case
    by (simp add: Cons.IH find_append split: option.splits)
qed

lemma forEach_found_find:
  "forEach_found s seg want cs =
     List.find (\<lambda>c. name (heap s ! c) = seg \<and>
                    (case want of None \<Rightarrow> True | Some t \<Rightarrow> filetype (heap s ! c) = t)) (rev cs)"
proof -
  have "child_matches s seg want = (\<lambda>c. name (heap s ! c) = seg \<and>
                    (case want of None \<Rightarrow> True | Some t \<Rightarrow> filetype (heap s ! c) = t))"
    by (auto simp: child_matches_def fun_eq_iff split: option.splits)
  then show ?thesis
    by (simp add: forEach_found_def fold_found split: option.splits)
qed

lemma findFile_final:
  assumes "has_children s d"
  shows "findFile s d [seg] want =
     Inr (if seg = [] \<and> want = Some Dir then Some d else resolve_segment s d seg want)"
  using assms
  by (auto simp: has_children_def resolve_segment_def forEach_found_find Let_def
           split: option.splits)

lemma findFile_hop:
  assumes "has_children s d" and "rest \<noteq> []"
  shows "findFile s d (seg # rest) want =
     (case resolve_segment s d seg (Some Dir) of
        None \<Rightarrow> Inr None
      | Some n \<Rightarrow> findFile s n rest want)"
  using assms
  by (auto simp: has_children_def resolve_segment_def forEach_found_find Let_def
           split: option.splits)

lemma dirs_ok_root: "dirs_ok s \<Longrightarrow> has_children s (fileStructure s)"
  by (simp add: dirs_ok_def)

lemma dirs_ok_node:
  assumes "dirs_ok s" and "r < length (heap s)"
  shows "(case parentRef (heap s ! r) of None \<Rightarrow> True | Some p \<Rightarrow> has_children s p) \<and>
         (case children (heap s ! r) of
            None \<Rightarrow> True
          | Some cs \<Rightarrow> list_all (\<lambda>c. filetype (heap s ! c) \<noteq> Dir \<or> has_children s c) cs)"
proof -
  from assms(2) have "r \<in> set [0..<length (heap s)]" by simp
  with assms(1) show ?thesis
    unfolding dirs_ok_def list_all_iff by blast
qed

lemma dirs_ok_parent:
  "dirs_ok s \<Longrightarrow> r < length (heap s) \<Longrightarrow> parentRef (heap s ! r) = Some p \<Longrightarrow> has_children s p"
  using dirs_ok_node [of s r] by simp

lemma dirs_ok_child:
  "dirs_ok s \<Longrightarrow> r < length (heap s) \<Longrightarrow> children (heap s ! r) = Some cs \<Longrightarrow> c \<in> set cs
     \<Longrightarrow> filetype (heap s ! c) = Dir \<Longrightarrow> has_children s c"
  using dirs_ok_node [of s r] by (auto simp: list_all_iff)

lemma find_SomeD: "List.find P xs = Some x \<Longrightarrow> P x \<and> x \<in> set xs"
  by (induction xs) (auto split: if_splits)

lemma resolve_segment_dir:
  assumes "dirs_ok s" and "has_children s d" and "resolve_segment s d seg (Some Dir) = Some n"
  shows "has_children s n"
proof -
  from assms(2) obtain cs where d: "d < length (heap s)" "children (heap s ! d) = Some cs"
    by (auto simp: has_children_def)
  consider "seg = ''.''" | "seg = ''..''" | "seg = ''~''"
    | "seg \<noteq> ''.''" "seg \<noteq> ''..''" "seg \<noteq> ''~''"
    by blast
  then show ?thesis
  proof cases
    case 1
    with assms show ?thesis by (simp add: resolve_segment_def)
  next
    case 2
    with assms(3) have "parentRef (heap s ! d) = Some n"
      by (simp add: resolve_segment_def)
    with assms(1) d(1) show ?thesis by (rule dirs_ok_parent)
  next
    case 3
    with assms(3) have "n = fileStructure s" by (simp add: resolve_segment_def)
    with assms(1) show ?thesis by (simp add: dirs_ok_root)
  next
    case 4
    with assms(3) d(2) have
      "List.find (\<lambda>c. name (heap s ! c) = seg \<and> filetype (heap s ! c) = Dir) (rev cs) = Some n"
      by (simp add: resolve_segment_def)
    then have "n \<in> set cs" "filetype (heap s ! n) = Dir"
      by (auto dest: find_SomeD)
    with assms(1) d show ?thesis by (auto intro: dirs_ok_child)
  qed
qed

lemma walk_None:
  "foldl (\<lambda>cur seg. case cur of None \<Rightarrow> None | Some d \<Rightarrow> resolve_segment s d seg (Some Dir))
     None segs = None"
  by (induction segs) simp_all

lemma walk_Cons:
  "walk s d (seg # segs) =
     (case resolve_segment s d seg (Some Dir) of None \<Rightarrow> None | Some n \<Rightarrow> walk s n segs)"
  by (simp add: walk_def walk_None split: option.splits)

lemma resolve_amended_single:
  "resolve_amended s d [seg] want =
     (if seg = [] \<and> want = Some Dir then Some d else resolve_segment s d seg want)"
  by (simp add: resolve_amended_def walk_def)

lemma resolve_amended_Cons:
  assumes "rest \<noteq> []"
  shows "resolve_amended s d (seg # rest) want =
     (case resolve_segment s d seg (Some Dir) of
        None \<Rightarrow> None
      | Some n \<Rightarrow> resolve_amended s n rest want)"
proof -
  from assms have b: "butlast (seg # rest) = seg # butlast rest"
    and l: "last (seg # rest) = last rest"
    by simp_all
  show ?thesis
    unfolding resolve_amended_def b l
    by (cases "resolve_segment s d seg (Some Dir)") (simp_all add: walk_Cons)
qed

text \<open>
  C1 (amended).  In a store with \<open>dirs_ok\<close>, for every starting directory and every
  non-empty segment list, \<^verbatim>\<open>findFile\<close> throws nothing and returns what the
  segment-by-segment resolution gives: \<^verbatim>\<open>.\<close>, \<^verbatim>\<open>..\<close>, \<^verbatim>\<open>~\<close> and child names as
  claimed, the type filter on the last segment only, a directory at every earlier
  segment, \<^verbatim>\<open>null\<close> as soon as a hop fails; except that an empty last segment with
  required type \<^verbatim>\<open>dir\<close> resolves to the directory reached so far.
\<close>

theorem findFile_resolves:
  assumes "dirs_ok s" and "has_children s d" and "segs \<noteq> []"
  shows "findFile s d segs want = Inr (resolve_amended s d segs want)"
  using assms(2,3)
proof (induction segs arbitrary: d)
  case Nil
  then show ?case by simp
next
  case (Cons seg rest)
  show ?case
  proof (cases "rest = []")
    case True
    with Cons.prems show ?thesis
      by (simp add: findFile_final resolve_amended_single del: findFile.simps)
  next
    case False
    show ?thesis
    proof (cases "resolve_segment s d seg (Some Dir)")
      case None
      with False Cons.prems show ?thesis
        by (simp add: findFile_hop resolve_amended_Cons del: findFile.simps)
    next
      case (Some n)
      with assms(1) Cons.prems have "has_children s n"
        by (auto intro: resolve_segment_dir)
      then have "findFile s n rest want = Inr (resolve_amended s n rest want)"
        using False by (rule Cons.IH)
      with Some False Cons.prems show ?thesis
        by (simp add: findFile_hop resolve_amended_Cons del: findFile.simps)
    qed
  qed
qed

theorem findFile_resolves_witness:
  "dirs_ok tree_session \<and> has_children tree_session 0
   \<and> findFile tree_session 0 [''a'', ''..'', ''~'', ''a'', ''.'', ''b'', ''f.txt''] (Some Txt)
       = Inr (Some 3)
   \<and> findFile tree_session 0 [''a'', ''f.txt'', ''b''] None = Inr None"
proof -
  have ok: "dirs_ok tree_session" by code_simp
  have start: "has_children tree_session 0" by code_simp
  have r1: "resolve_amended tree_session 0
              [''a'', ''..'', ''~'', ''a'', ''.'', ''b'', ''f.txt''] (Some Txt) = Some 3"
    by code_simp
  have r2: "resolve_amended tree_session 0 [''a'', ''f.txt'', ''b''] None = None"
    by code_simp
  show ?thesis
    using findFile_resolves [OF ok start, of "[''a'', ''..'', ''~'', ''a'', ''.'', ''b'', ''f.txt'']" "Some Txt"]
      findFile_resolves [OF ok start, of "[''a'', ''f.txt'', ''b'']" None]
      ok start r1 r2
    by simp
qed

text \<open>
  C1 as stated fails at the one-segment path holding the empty segment, with required
  type \<^verbatim>\<open>dir\<close>: the root of \<open>root_only\<close> has no child at all, so the claimed resolution
  finds nothing, while \<^verbatim>\<open>findFile\<close> returns the starting directory.
\<close>

theorem findFile_empty_segment_counterexample:
  "dirs_ok root_only \<and> has_children root_only 0
   \<and> resolve_claimed root_only 0 [[]] (Some Dir) = None
   \<and> findFile root_only 0 [[]] (Some Dir) = Inr (Some 0)"
  by code_simp

section \<open>Redirection runs the inner command first\<close>


definition kept :: "fileobject \<Rightarrow> fileobject \<Rightarrow> bool" where
  "kept old new =
     (name new = name old \<and> fullPath new = fullPath old \<and> filetype new = filetype old \<and>
      parentRef new = parentRef old \<and> lastModified new = lastModified old \<and>
      (case children old of
         None \<Rightarrow> children new = None
       | Some cs \<Rightarrow> (case children new of None \<Rightarrow> False | Some cs' \<Rightarrow> take (length cs) cs' = cs)))"



lemma kept_contents: "kept obj (obj\<lparr>contents := c\<rparr>)"
  by (simp add: kept_def split: option.splits)






lemma executeCommand_redirect:
  "executeCommand s line =
     (if js_includes line ''>>'' then redirect s line ''>>''
      else if js_includes line ''>'' then redirect s line ''>''
      else run_ShellCommand s (new_ShellCommand line))"
  by (subst executeCommand.simps) (simp add: redirect_def Let_def)



section \<open>Tab completion and the pending flag\<close>

text \<open>
  No command touches the line editor's part of the session: the pending flag, the
  buffer, the history and its cursor, the prompt element, the user, the root and the
  clock are the same after \<^verbatim>\<open>executeCommand\<close>, whether it returns or throws.
\<close>

definition same_line_state :: "shell \<Rightarrow> shell \<Rightarrow> bool" where
  "same_line_state s s' =
     (tabPressed s' = tabPressed s \<and> inputString s' = inputString s \<and>
      bashHistory s' = bashHistory s \<and> historyIndex s' = historyIndex s \<and>
      inputPromptElement s' = inputPromptElement s \<and> user s' = user s \<and>
      fileStructure s' = fileStructure s \<and> now s' = now s)"

lemma same_line_state_refl [simp]: "same_line_state s s"
  by (simp add: same_line_state_def)

lemma same_line_state_trans:
  "same_line_state s s' \<Longrightarrow> same_line_state s' s'' \<Longrightarrow> same_line_state s s''"
  by (simp add: same_line_state_def)

lemma newFile_line_state: "same_line_state s (state_of (newFile s path t))"
  by (auto simp: newFile_def same_line_state_def Let_def split: sum.splits option.splits)

lemma touch_forEach_line_state: "same_line_state s (state_of (touch_forEach s as res))"
proof (induction as arbitrary: s res)
  case Nil
  then show ?case by simp
next
  case (Cons a as)
  show ?case
  proof (cases "findFile s (currentDir s) (js_split CHR ''/'' a) (Some Txt)")
    case (Inl e)
    then show ?thesis by (simp del: findFile.simps)
  next
    case (Inr found)
    show ?thesis
    proof (cases found)
      case None
      show ?thesis
      proof (cases "newFile s (js_split CHR ''/'' a) Txt")
        case (Returns r s')
        with newFile_line_state [of s "js_split CHR ''/'' a" Txt]
        have "same_line_state s s'" by simp
        moreover have "same_line_state s' (state_of (touch_forEach s' as (combine res r)))"
          by (rule Cons.IH)
        ultimately show ?thesis
          using Inr None Returns
          by (simp del: findFile.simps) (rule same_line_state_trans)
      next
        case (Throws e s')
        with newFile_line_state [of s "js_split CHR ''/'' a" Txt]
        show ?thesis using Inr None by (simp del: findFile.simps)
      qed
    next
      case (Some f)
      let ?s' = "s\<lparr>heap := (heap s)[f := (heap s ! f)\<lparr>lastModified := Some (now s)\<rparr>]\<rparr>"
      have "same_line_state s ?s'" by (simp add: same_line_state_def)
      moreover have "same_line_state ?s' (state_of (touch_forEach ?s' as res))"
        by (rule Cons.IH)
      ultimately show ?thesis
        using Inr Some by (simp del: findFile.simps) (rule same_line_state_trans)
    qed
  qed
qed

lemma mkdir_forEach_line_state: "same_line_state s (state_of (mkdir_forEach s as res))"
proof (induction as arbitrary: s res)
  case Nil
  then show ?case by simp
next
  case (Cons a as)
  show ?case
  proof (cases "findFile s (currentDir s) (js_split CHR ''/'' a) (Some Dir)")
    case (Inl e)
    then show ?thesis by (simp del: findFile.simps)
  next
    case (Inr found)
    show ?thesis
    proof (cases found)
      case None
      show ?thesis
      proof (cases "newFile s (js_split CHR ''/'' a) Dir")
        case (Returns r s')
        with newFile_line_state [of s "js_split CHR ''/'' a" Dir]
        have "same_line_state s s'" by simp
        moreover have "same_line_state s' (state_of (mkdir_forEach s' as (combine res r)))"
          by (rule Cons.IH)
        ultimately show ?thesis
          using Inr None Returns
          by (simp del: findFile.simps) (rule same_line_state_trans)
      next
        case (Throws e s')
        with newFile_line_state [of s "js_split CHR ''/'' a" Dir]
        show ?thesis using Inr None by (simp del: findFile.simps)
      qed
    next
      case (Some f)
      then show ?thesis
        using Inr Cons.IH by (simp del: findFile.simps)
    qed
  qed
qed

lemma eval_command_line_state: "same_line_state s (state_of (eval_command s c cmd))"
proof -
  have "same_line_state s (state_of (clear s))" "same_line_state s (state_of (pwd s))"
    "same_line_state s (state_of (whoami s))" "same_line_state s (state_of (echo s cmd))"
    by (simp_all add: clear_def pwd_def whoami_def echo_def same_line_state_def)
  moreover have "same_line_state s (state_of (cd s cmd))"
    by (auto simp: cd_def same_line_state_def Let_def split: list.splits sum.splits option.splits
             simp del: findFile.simps)
  moreover have "same_line_state s (state_of (ls s cmd))"
    by (auto simp: ls_def Let_def split: sum.splits)
  moreover have "same_line_state s (state_of (cat s cmd))"
    by (auto simp: cat_def Let_def split: sum.splits)
  moreover have "same_line_state s (state_of (touch s cmd))"
    by (simp add: touch_def Let_def touch_forEach_line_state)
  moreover have "same_line_state s (state_of (mkdir s cmd))"
    by (simp add: mkdir_def Let_def mkdir_forEach_line_state)
  moreover have "same_line_state s (state_of (vi s cmd))"
    by (auto simp: vi_def same_line_state_def Let_def split: list.splits sum.splits
             simp del: findFile.simps)
  ultimately show ?thesis
    by (simp add: eval_command_def)
qed

lemma run_ShellCommand_line_state: "same_line_state s (state_of (run_ShellCommand s cmd))"
  by (simp add: run_ShellCommand_def eval_command_line_state split: option.splits)

lemma redirect_assign_line_state:
  "same_line_state s (state_of (redirect_assign s pattern res target))"
  by (auto simp: redirect_assign_def same_line_state_def split: option.splits)

lemma redirect_write_line_state:
  "same_line_state s (state_of (redirect_write s pattern res afterSymbol))"
proof -
  define filepath where "filepath = (case afterSymbol of [] \<Rightarrow> ''undefined'' | w # _ \<Rightarrow> w)"
  show ?thesis
  proof (cases "findFile s (currentDir s) [filepath] (Some Txt)")
    case (Inl e)
    then show ?thesis
      by (simp add: redirect_write_def filepath_def [symmetric] del: findFile.simps)
  next
    case (Inr found)
    show ?thesis
    proof (cases found)
      case None
      show ?thesis
      proof (cases "newFile s [filepath] Txt")
        case (Returns created s')
        with newFile_line_state [of s "[filepath]" Txt] have "same_line_state s s'" by simp
        moreover have "same_line_state s' (state_of (redirect_assign s' pattern res target))"
          for target by (rule redirect_assign_line_state)
        ultimately show ?thesis
          using Inr None Returns
          by (auto simp: redirect_write_def filepath_def [symmetric] split: option.splits
                   intro: same_line_state_trans simp del: findFile.simps)
      next
        case (Throws e s')
        with newFile_line_state [of s "[filepath]" Txt] show ?thesis
          using Inr None
          by (simp add: redirect_write_def filepath_def [symmetric] del: findFile.simps)
      qed
    next
      case (Some target)
      with Inr show ?thesis
        by (simp add: redirect_write_def filepath_def [symmetric] redirect_assign_line_state
                 del: findFile.simps)
    qed
  qed
qed

lemma executeCommand_line_state: "same_line_state s (state_of (executeCommand s line))"
proof (induction s line rule: executeCommand.induct)
  case (1 s line)
  have step: "same_line_state s (state_of (redirect s line pattern))"
    if "length (redirect_afterSymbol line pattern) \<noteq> 0 \<Longrightarrow>
        same_line_state s (state_of (executeCommand s (redirect_newInput line pattern)))"
    for pattern
  proof (cases "length (redirect_afterSymbol line pattern) = 0")
    case True
    then show ?thesis by (simp add: redirect_def)
  next
    case False
    with that have inner: "same_line_state s (state_of (executeCommand s (redirect_newInput line pattern)))"
      by simp
    show ?thesis
    proof (cases "executeCommand s (redirect_newInput line pattern)")
      case (Returns res s')
      with inner have "same_line_state s s'" by simp
      then have "same_line_state s (state_of (redirect_write s' pattern res (redirect_afterSymbol line pattern)))"
        using redirect_write_line_state by (rule same_line_state_trans)
      with False Returns show ?thesis by (simp add: redirect_def)
    next
      case (Throws e s')
      with inner False show ?thesis by (simp add: redirect_def)
    qed
  qed
  show ?case
  proof (cases "js_includes line ''>>''")
    case True
    with "1.IH"(1) step [of "''>>''"] show ?thesis
      by (simp add: executeCommand_redirect)
  next
    case False
    show ?thesis
    proof (cases "js_includes line ''>''")
      case True
      with False "1.IH"(2) step [of "''>''"] show ?thesis
        by (simp add: executeCommand_redirect)
    next
      case no: False
      with False show ?thesis
        by (simp add: executeCommand_redirect run_ShellCommand_line_state)
    qed
  qed
qed

text \<open>Key events, and the state after a sequence of keystrokes.\<close>

definition key :: "nat \<Rightarrow> string \<Rightarrow> key_event" where
  "key code ch = \<lparr>which = code, character = ch\<rparr>"

definition after_keys :: "shell \<Rightarrow> key_event list \<Rightarrow> shell" where
  "after_keys s events = fold (\<lambda>event s'. state_of (shellKeystroke s' event)) events s"

lemma handleEnter_tabPressed: "tabPressed (state_of (handleEnter s)) = tabPressed s"
proof (cases "list_all (\<lambda>c. c = CHR '' '') (inputString s)")
  case True
  then show ?thesis by (simp add: handleEnter_def)
next
  case False
  define s2 where "s2 = s\<lparr>outputElement := outputElement s
                         @ [Print (getPS1String s @ replace_first_blank ''&nbsp;'' (inputString s))],
                       bashHistory := bashHistory s @ [inputString s]\<rparr>"
  have "same_line_state s2 (state_of (executeCommand s2 (inputString s)))"
    by (rule executeCommand_line_state)
  then have "tabPressed (state_of (executeCommand s2 (inputString s))) = tabPressed s"
    by (simp add: same_line_state_def s2_def)
  then show ?thesis
    using False
    by (cases "executeCommand s2 (inputString s)")
       (simp_all add: handleEnter_def Let_def s2_def)
qed

text \<open>
  C9 (amended).  Let a tab keystroke find the word \<open>partial\<close> with the candidates
  \<open>options\<close>.  With several candidates and the pending flag clear, the keystroke sets
  the flag and prints nothing.  With several candidates and the flag set, it prints the
  prompt line and the candidates and leaves the flag set, so every further tab prints
  them again.  With exactly one candidate, it appends to the buffer the candidate
  without its first \<open>n\<close> characters, \<open>n\<close> the length of the last \<^verbatim>\<open>/\<close>-segment of the
  word.  Every keystroke other than tab leaves the flag clear, also when the command
  run by Enter throws.
\<close>

theorem tab_completion_cycle:
  assumes "which tab = 9"
  shows "(tab_options s = Inr (partial, options) \<and> 1 < length options \<and> \<not> tabPressed s
            \<longrightarrow> shellKeystroke s tab = Returns () (s\<lparr>tabPressed := True\<rparr>))
       \<and> (tab_options s = Inr (partial, options) \<and> 1 < length options \<and> tabPressed s
            \<longrightarrow> shellKeystroke s tab =
                  Returns ()
                    (s\<lparr>outputElement := outputElement s
                          @ [Print (getPS1String s @ inputString s), PrintInline options]\<rparr>)
                \<and> tabPressed (state_of (shellKeystroke s tab)))
       \<and> (tab_options s = Inr (partial, [complete])
            \<longrightarrow> shellKeystroke s tab =
                  Returns ()
                    (s\<lparr>inputString := inputString s
                          @ drop (length (last (js_split CHR ''/'' partial))) complete,
                        inputPromptElement := inputPromptElement s
                          @ drop (length (last (js_split CHR ''/'' partial))) complete\<rparr>))
       \<and> (which event \<noteq> 9 \<longrightarrow> \<not> tabPressed (state_of (shellKeystroke s event)))"
proof -
  have tab: "shellKeystroke s tab = handleTab s"
    using assms by (simp add: shellKeystroke_def)
  have arm: "shellKeystroke s tab = Returns () (s\<lparr>tabPressed := True\<rparr>)"
    if "tab_options s = Inr (partial, options)" "1 < length options" "\<not> tabPressed s"
    using that by (simp add: tab handleTab_def printAutoCompleteOptions_def)
  have show_all: "shellKeystroke s tab =
        Returns () (s\<lparr>outputElement := outputElement s
                      @ [Print (getPS1String s @ inputString s), PrintInline options]\<rparr>)"
    if "tab_options s = Inr (partial, options)" "1 < length options" "tabPressed s"
    using that by (simp add: tab handleTab_def printAutoCompleteOptions_def)
  have last_word: "(if js_split CHR ''/'' partial = [] then ''undefined''
          else js_split CHR ''/'' partial ! (length (js_split CHR ''/'' partial) - 1))
        = last (js_split CHR ''/'' partial)"
    by (simp add: js_split_neq_Nil last_conv_nth)
  have single: "shellKeystroke s tab =
        Returns ()
          (s\<lparr>inputString := inputString s
                @ drop (length (last (js_split CHR ''/'' partial))) complete,
              inputPromptElement := inputPromptElement s
                @ drop (length (last (js_split CHR ''/'' partial))) complete\<rparr>)"
    if "tab_options s = Inr (partial, [complete])"
    using that
    by (simp add: tab handleTab_def executeAutoComplete_def Let_def last_word js_slice_from_nat)
  have other: "\<not> tabPressed (state_of (shellKeystroke s event))" if "which event \<noteq> 9"
    using that
    by (simp add: shellKeystroke_def Let_def handleEnter_tabPressed)
  from arm show_all single other show ?thesis
    by simp
qed

theorem tab_completion_cycle_witness:
  "which (key 9 []) = 9
   \<and> tab_options (root_only\<lparr>inputString := ''c''\<rparr>) = Inr (''c'', [''clear'', ''cd'', ''cat''])
   \<and> shellKeystroke (root_only\<lparr>inputString := ''c''\<rparr>) (key 9 [])
       = Returns () (root_only\<lparr>inputString := ''c'', tabPressed := True\<rparr>)
   \<and> shellKeystroke (root_only\<lparr>inputString := ''c'', tabPressed := True\<rparr>) (key 9 [])
       = Returns ()
           (root_only\<lparr>inputString := ''c'', tabPressed := True,
              outputElement := [Print (getPS1String root_only @ ''c''),
                                PrintInline [''clear'', ''cd'', ''cat'']]\<rparr>)
   \<and> tab_options (tree_session\<lparr>inputString := ''cat a/b/f''\<rparr>) = Inr (''a/b/f'', [''f.txt''])
   \<and> shellKeystroke (tree_session\<lparr>inputString := ''cat a/b/f''\<rparr>) (key 9 [])
       = Returns ()
           (tree_session\<lparr>inputString := ''cat a/b/f.txt'', inputPromptElement := ''.txt''\<rparr>)
   \<and> which (key 97 ''a'') \<noteq> 9
   \<and> \<not> tabPressed (state_of (shellKeystroke (root_only\<lparr>inputString := ''c'', tabPressed := True\<rparr>)
                               (key 97 ''a'')))"
proof -
  have k: "which (key 9 []) = 9" by (simp add: key_def)
  have o1: "tab_options (root_only\<lparr>inputString := ''c''\<rparr>) = Inr (''c'', [''clear'', ''cd'', ''cat''])"
    by code_simp
  have o2: "tab_options (root_only\<lparr>inputString := ''c'', tabPressed := True\<rparr>)
              = Inr (''c'', [''clear'', ''cd'', ''cat''])"
    by code_simp
  have o3: "tab_options (tree_session\<lparr>inputString := ''cat a/b/f''\<rparr>) = Inr (''a/b/f'', [''f.txt''])"
    by code_simp
  have f1: "\<not> tabPressed (root_only\<lparr>inputString := ''c''\<rparr>)"
    and f2: "tabPressed (root_only\<lparr>inputString := ''c'', tabPressed := True\<rparr>)"
    by (simp_all add: root_only_def new_Shell_def)
  have p: "getPS1String (root_only\<lparr>inputString := ''c'', tabPressed := True\<rparr>) = getPS1String root_only"
    by (simp add: getPS1String_def)
  have out: "outputElement root_only = []" "inputPromptElement tree_session = []"
    by code_simp+
  have w: "drop (length (last (js_split CHR ''/'' ''a/b/f''))) ''f.txt'' = ''.txt''"
    by code_simp
  have a: "which (key 97 ''a'') \<noteq> 9" by (simp add: key_def)
  note c1 = tab_completion_cycle [OF k, of "root_only\<lparr>inputString := ''c''\<rparr>" "''c''"
              "[''clear'', ''cd'', ''cat'']"]
  note c2 = tab_completion_cycle [OF k, of "root_only\<lparr>inputString := ''c'', tabPressed := True\<rparr>"
              "''c''" "[''clear'', ''cd'', ''cat'']" _ "key 97 ''a''"]
  note c3 = tab_completion_cycle [OF k, of "tree_session\<lparr>inputString := ''cat a/b/f''\<rparr>"
              "''a/b/f''" _ "''f.txt''"]
  from c1 o1 f1 have r1: "shellKeystroke (root_only\<lparr>inputString := ''c''\<rparr>) (key 9 [])
       = Returns () (root_only\<lparr>inputString := ''c'', tabPressed := True\<rparr>)"
    by simp
  from c2 o2 f2 have r2: "shellKeystroke (root_only\<lparr>inputString := ''c'', tabPressed := True\<rparr>) (key 9 [])
       = Returns ()
           (root_only\<lparr>inputString := ''c'', tabPressed := True,
              outputElement := [Print (getPS1String root_only @ ''c''),
                                PrintInline [''clear'', ''cd'', ''cat'']]\<rparr>)"
    by (simp add: p out)
  from c3 o3 have r3: "shellKeystroke (tree_session\<lparr>inputString := ''cat a/b/f''\<rparr>) (key 9 [])
       = Returns ()
           (tree_session\<lparr>inputString := ''cat a/b/f.txt'', inputPromptElement := ''.txt''\<rparr>)"
    by (simp add: w out)
  from c2 a have r4: "\<not> tabPressed (state_of (shellKeystroke
                        (root_only\<lparr>inputString := ''c'', tabPressed := True\<rparr>) (key 97 ''a'')))"
    by blast
  from k o1 r1 r2 o3 r3 a r4 show ?thesis by blast
qed

text \<open>
  C9 as stated fails where it has the second tab press reset the flag: with the buffer
  \<^verbatim>\<open>c\<close> (candidates \<^verbatim>\<open>clear\<close>, \<^verbatim>\<open>cd\<close>, \<^verbatim>\<open>cat\<close>) the first tab prints nothing,
  the second prints two lines and the flag is still set, and the third prints two more.
\<close>

theorem tab_flag_not_reset_counterexample:
  "tab_options (root_only\<lparr>inputString := ''c''\<rparr>) = Inr (''c'', [''clear'', ''cd'', ''cat''])
   \<and> length (outputElement (after_keys (root_only\<lparr>inputString := ''c''\<rparr>) [key 9 []])) = 0
   \<and> length (outputElement (after_keys (root_only\<lparr>inputString := ''c''\<rparr>) [key 9 [], key 9 []])) = 2
   \<and> tabPressed (after_keys (root_only\<lparr>inputString := ''c''\<rparr>) [key 9 [], key 9 []])
   \<and> length (outputElement (after_keys (root_only\<lparr>inputString := ''c''\<rparr>)
                               [key 9 [], key 9 [], key 9 []])) = 4"
  by code_simp

section \<open>Commands on plain names\<close>








subsection \<open>Changing directory\<close>

text \<open>
  \<open>parents_ok\<close>: every child of a directory refers back to it, as every object made by
  \<^verbatim>\<open>newFile\<close> does.  \<open>no_output\<close> is the result of a command that prints nothing.
\<close>

definition parents_ok :: "shell \<Rightarrow> bool" where
  "parents_ok s =
     list_all
       (\<lambda>r. case children (heap s ! r) of
               None \<Rightarrow> True
             | Some cs \<Rightarrow> list_all (\<lambda>c. parentRef (heap s ! c) = Some r) cs)
       [0..<length (heap s)]"


lemma parents_ok_child:
  assumes "parents_ok s" and "r < length (heap s)" and "children (heap s ! r) = Some cs"
    and "c \<in> set cs"
  shows "parentRef (heap s ! c) = Some r"
proof -
  from assms(2) have "r \<in> set [0..<length (heap s)]" by simp
  with assms(1) have "case children (heap s ! r) of
               None \<Rightarrow> True
             | Some cs \<Rightarrow> list_all (\<lambda>c. parentRef (heap s ! c) = Some r) cs"
    unfolding parents_ok_def list_all_iff by blast
  with assms(3,4) show ?thesis by (simp add: list_all_iff)
qed







subsection \<open>Creating files and directories\<close>

text \<open>
  \<open>children_in_store\<close>: the directory lies in the store and so do all its children.
  \<open>child_keys\<close>: the name and type of every child, in stored order.
\<close>

definition children_in_store :: "shell \<Rightarrow> ref \<Rightarrow> bool" where
  "children_in_store s d =
     (d < length (heap s) \<and>
      (case children (heap s ! d) of
         None \<Rightarrow> False
       | Some cs \<Rightarrow> list_all (\<lambda>c. c < length (heap s)) cs))"









section \<open>Writing a file through a redirect and reading it back\<close>













section \<open>Every command keeps the store well formed\<close>

text \<open>
  \<open>store_ok\<close> collects what the theorems above assume of a store: \<open>dirs_ok\<close>,
  \<open>parents_ok\<close>, a current directory with children, and every child of every directory
  in the store.  It holds of a new session over the root alone and is kept by every
  line handed to \<^verbatim>\<open>executeCommand\<close>, whether the command returns or throws; so the
  assumptions hold in every state a session reaches.
\<close>

definition store_ok :: "shell \<Rightarrow> bool" where
  "store_ok s =
     (dirs_ok s \<and> parents_ok s \<and> has_children s (currentDir s) \<and>
      list_all (\<lambda>r. case children (heap s ! r) of
                      None \<Rightarrow> True
                    | Some cs \<Rightarrow> list_all (\<lambda>c. c < length (heap s)) cs)
        [0..<length (heap s)])"

lemma store_ok_iff:
  "store_ok s \<longleftrightarrow>
     has_children s (fileStructure s) \<and> has_children s (currentDir s) \<and>
     (\<forall>r < length (heap s).
        (\<forall>p. parentRef (heap s ! r) = Some p \<longrightarrow> has_children s p) \<and>
        (\<forall>cs c. children (heap s ! r) = Some cs \<longrightarrow> c \<in> set cs \<longrightarrow>
           c < length (heap s) \<and> parentRef (heap s ! c) = Some r \<and>
           (filetype (heap s ! c) = Dir \<longrightarrow> has_children s c)))"
  (is "?lhs \<longleftrightarrow> ?rhs")
proof
  assume ok: ?lhs
  then have d: "dirs_ok s" and p: "parents_ok s" and c: "has_children s (currentDir s)"
    and range: "\<forall>r \<in> set [0..<length (heap s)].
                  case children (heap s ! r) of
                    None \<Rightarrow> True
                  | Some cs \<Rightarrow> \<forall>c \<in> set cs. c < length (heap s)"
    unfolding store_ok_def list_all_iff by simp_all
  have "c < length (heap s)" if "r < length (heap s)" "children (heap s ! r) = Some cs" "c \<in> set cs"
    for r cs c
  proof -
    from that(1) have "r \<in> set [0..<length (heap s)]" by simp
    with range have "case children (heap s ! r) of
                    None \<Rightarrow> True
                  | Some cs \<Rightarrow> \<forall>c \<in> set cs. c < length (heap s)"
      by blast
    with that(2,3) show ?thesis by simp
  qed
  with d p c show ?rhs
    by (auto simp: dirs_ok_root intro: dirs_ok_parent dirs_ok_child parents_ok_child)
next
  assume r: ?rhs
  then have "dirs_ok s"
    unfolding dirs_ok_def list_all_iff
    by (auto split: option.splits)
  moreover from r have "parents_ok s"
    unfolding parents_ok_def list_all_iff
    by (auto split: option.splits)
  moreover from r have "list_all (\<lambda>r. case children (heap s ! r) of
                      None \<Rightarrow> True
                    | Some cs \<Rightarrow> list_all (\<lambda>c. c < length (heap s)) cs)
        [0..<length (heap s)]"
    unfolding list_all_iff
    by (auto split: option.splits)
  ultimately show ?lhs
    using r by (simp add: store_ok_def)
qed

lemma store_ok_same_structure:
  assumes "store_ok s" and "length (heap s') = length (heap s)"
    and "fileStructure s' = fileStructure s" and "currentDir s' = currentDir s"
    and "\<And>r. r < length (heap s) \<Longrightarrow>
           parentRef (heap s' ! r) = parentRef (heap s ! r) \<and>
           children (heap s' ! r) = children (heap s ! r) \<and>
           filetype (heap s' ! r) = filetype (heap s ! r)"
  shows "store_ok s'"
proof -
  have hc: "has_children s' r = has_children s r" for r
    using assms(2,5) by (auto simp: has_children_def)
  from assms(1) have ok:
    "has_children s (fileStructure s)" "has_children s (currentDir s)"
    "\<And>r p. r < length (heap s) \<Longrightarrow> parentRef (heap s ! r) = Some p \<Longrightarrow> has_children s p"
    "\<And>r cs c. r < length (heap s) \<Longrightarrow> children (heap s ! r) = Some cs \<Longrightarrow> c \<in> set cs \<Longrightarrow>
           c < length (heap s) \<and> parentRef (heap s ! c) = Some r \<and>
           (filetype (heap s ! c) = Dir \<longrightarrow> has_children s c)"
    unfolding store_ok_iff by blast+
  show ?thesis
    unfolding store_ok_iff hc assms(2,3,4)
  proof (intro conjI allI impI)
    show "has_children s (fileStructure s)" "has_children s (currentDir s)" by (rule ok)+
  next
    fix r p assume "r < length (heap s)" "parentRef (heap s' ! r) = Some p"
    then show "has_children s p" using ok(3) assms(5) by simp
  next
    fix r cs c assume a: "r < length (heap s)" "children (heap s' ! r) = Some cs" "c \<in> set cs"
    then have k: "c < length (heap s) \<and> parentRef (heap s ! c) = Some r \<and>
           (filetype (heap s ! c) = Dir \<longrightarrow> has_children s c)"
      using ok(4) [of r cs c] assms(5) by simp
    then show "c < length (heap s)" by simp
    from k assms(5) show "parentRef (heap s' ! c) = Some r" by simp
    show "has_children s c" if "filetype (heap s' ! c) = Dir"
      using k that assms(5) by simp
  qed
qed

lemma findFile_dir:
  assumes "dirs_ok s"
  shows "has_children s d \<Longrightarrow> findFile s d path (Some Dir) = Inr (Some r) \<Longrightarrow> has_children s r"
proof (induction path arbitrary: d)
  case Nil
  then show ?case by simp
next
  case (Cons seg rest)
  show ?case
  proof (cases "rest = []")
    case True
    with Cons.prems have "(if seg = [] then Some d else resolve_segment s d seg (Some Dir)) = Some r"
      by (simp add: findFile_final del: findFile.simps)
    with assms Cons.prems(1) show ?thesis
      by (auto split: if_splits intro: resolve_segment_dir)
  next
    case False
    with Cons.prems obtain n where n: "resolve_segment s d seg (Some Dir) = Some n"
      and rest: "findFile s n rest (Some Dir) = Inr (Some r)"
      by (auto simp: findFile_hop split: option.splits simp del: findFile.simps)
    from assms Cons.prems(1) n have "has_children s n" by (rule resolve_segment_dir)
    then show ?thesis using rest by (rule Cons.IH)
  qed
qed

lemma store_ok_push:
  assumes ok: "store_ok s" and d: "d < length (heap s)" "children (heap s ! d) = Some cs"
    and obj: "parentRef obj = Some d" "children obj = None \<or> children obj = Some []"
      "filetype obj = Dir \<longrightarrow> children obj = Some []"
  shows "store_ok (s\<lparr>heap := (heap s @ [obj])
                      [d := (heap s ! d)\<lparr>children := Some (cs @ [length (heap s)])\<rparr>]\<rparr>)"
    (is "store_ok ?s'")
proof -
  let ?n = "length (heap s)"
  from ok have old:
    "has_children s (fileStructure s)" "has_children s (currentDir s)"
    "\<And>r p. r < ?n \<Longrightarrow> parentRef (heap s ! r) = Some p \<Longrightarrow> has_children s p"
    "\<And>r cs c. r < ?n \<Longrightarrow> children (heap s ! r) = Some cs \<Longrightarrow> c \<in> set cs \<Longrightarrow>
           c < ?n \<and> parentRef (heap s ! c) = Some r \<and>
           (filetype (heap s ! c) = Dir \<longrightarrow> has_children s c)"
    unfolding store_ok_iff by blast+
  have len: "length (heap ?s') = Suc ?n" by simp
  have at_d: "heap ?s' ! d = (heap s ! d)\<lparr>children := Some (cs @ [?n])\<rparr>"
    using d(1) by simp
  have at_n: "heap ?s' ! ?n = obj"
    using d(1) by simp
  have at_other: "heap ?s' ! r = heap s ! r" if "r < ?n" "r \<noteq> d" for r
    using that by (simp add: nth_append)
  have fields: "parentRef (heap ?s' ! r) = parentRef (heap s ! r)
               \<and> filetype (heap ?s' ! r) = filetype (heap s ! r)" if "r < ?n" for r
    using that at_d at_other by (cases "r = d") simp_all
  have kids: "children (heap ?s' ! r) = (if r = d then Some (cs @ [?n]) else children (heap s ! r))"
    if "r < ?n" for r
    using that at_d at_other by (cases "r = d") simp_all
  have keep: "has_children ?s' r" if "has_children s r" for r
    using that d(2) kids [of r] by (auto simp: has_children_def)
  show ?thesis
    unfolding store_ok_iff len
  proof (intro conjI allI impI)
    show "has_children ?s' (fileStructure ?s')" "has_children ?s' (currentDir ?s')"
      using old(1,2) keep by simp_all
  next
    fix r p assume r: "r < Suc ?n" and p: "parentRef (heap ?s' ! r) = Some p"
    show "has_children ?s' p"
    proof (cases "r = ?n")
      case True
      with p obj(1) at_n have "p = d" by simp
      with d show ?thesis by (intro keep) (simp add: has_children_def)
    next
      case False
      with r have "r < ?n" by simp
      with p fields have "parentRef (heap s ! r) = Some p" by simp
      with \<open>r < ?n\<close> show ?thesis by (intro keep old(3))
    qed
  next
    fix r ks c assume r: "r < Suc ?n" and ks: "children (heap ?s' ! r) = Some ks" and c: "c \<in> set ks"
    have "c < Suc ?n \<and> parentRef (heap ?s' ! c) = Some r
            \<and> (filetype (heap ?s' ! c) = Dir \<longrightarrow> has_children ?s' c)"
    proof (cases "r = ?n")
      case True
      with ks at_n obj(2) c show ?thesis by auto
    next
      case False
      with r have rn: "r < ?n" by simp
      show ?thesis
      proof (cases "c = ?n")
        case True
        have "r = d"
        proof (rule ccontr)
          assume "r \<noteq> d"
          with ks kids [OF rn] have "children (heap s ! r) = Some ks" by simp
          from old(4) [OF rn this c] True show False by simp
        qed
        with True at_n obj show ?thesis
          by (auto simp: has_children_def len)
      next
        case cn: False
        have "children (heap s ! r) = Some (if r = d then cs else ks) \<and> c \<in> set (if r = d then cs else ks)"
          using rn ks kids [OF rn] c cn d(2) by (auto split: if_splits)
        with old(4) [OF rn] have k: "c < ?n \<and> parentRef (heap s ! c) = Some r \<and>
           (filetype (heap s ! c) = Dir \<longrightarrow> has_children s c)"
          by blast
        with fields [of c] keep show ?thesis by auto
      qed
    qed
    then show "c < Suc ?n" "parentRef (heap ?s' ! c) = Some r"
      "filetype (heap ?s' ! c) = Dir \<Longrightarrow> has_children ?s' c"
      by simp_all
  qed
qed

lemma newFile_store_ok:
  assumes "store_ok s"
  shows "store_ok (state_of (newFile s path t))"
proof -
  from assms have d: "dirs_ok s" and cur: "has_children s (currentDir s)"
    by (simp_all add: store_ok_def)
  define target where "target = (if length path = 1 then Inr (Some (currentDir s))
            else findFile s (currentDir s) (js_slice path 0 (- 1)) (Some Dir))"
  show ?thesis
  proof (cases target)
    case (Inl e)
    show ?thesis
      unfolding newFile_def target_def [symmetric] Inl using assms by simp
  next
    case (Inr found)
    show ?thesis
    proof (cases found)
      case None
      show ?thesis
        unfolding newFile_def target_def [symmetric] Inr None using assms by simp
    next
      case (Some dir)
      with Inr have "has_children s dir"
        using cur findFile_dir [OF d cur]
        by (auto simp: target_def split: if_splits)
      then obtain cs where dir: "dir < length (heap s)" "children (heap s ! dir) = Some cs"
        by (auto simp: has_children_def)
      show ?thesis
        unfolding newFile_def target_def [symmetric] Inr Some
        using dir store_ok_push [OF assms dir]
        by (simp add: Let_def DirFile_def TxtFile_def)
    qed
  qed
qed

lemma store_ok_update_at:
  assumes "store_ok s"
    and "parentRef obj = parentRef (heap s ! f)" "children obj = children (heap s ! f)"
      "filetype obj = filetype (heap s ! f)"
  shows "store_ok (s\<lparr>heap := (heap s)[f := obj]\<rparr>)"
proof (rule store_ok_same_structure [OF assms(1)])
  fix r assume "r < length (heap s)"
  then show "parentRef (heap (s\<lparr>heap := (heap s)[f := obj]\<rparr>) ! r) = parentRef (heap s ! r) \<and>
             children (heap (s\<lparr>heap := (heap s)[f := obj]\<rparr>) ! r) = children (heap s ! r) \<and>
             filetype (heap (s\<lparr>heap := (heap s)[f := obj]\<rparr>) ! r) = filetype (heap s ! r)"
    using assms(2-4) by (cases "r = f") simp_all
qed simp_all

lemma store_ok_session:
  assumes "store_ok s" and "heap s' = heap s" and "fileStructure s' = fileStructure s"
    and "has_children s (currentDir s')"
  shows "store_ok s'"
proof -
  have hc: "has_children s' r = has_children s r" for r
    using assms(2) by (simp add: has_children_def)
  from assms(1) have "has_children s (fileStructure s) \<and>
     (\<forall>r < length (heap s).
        (\<forall>p. parentRef (heap s ! r) = Some p \<longrightarrow> has_children s p) \<and>
        (\<forall>cs c. children (heap s ! r) = Some cs \<longrightarrow> c \<in> set cs \<longrightarrow>
           c < length (heap s) \<and> parentRef (heap s ! c) = Some r \<and>
           (filetype (heap s ! c) = Dir \<longrightarrow> has_children s c)))"
    unfolding store_ok_iff by blast
  with assms(4) show ?thesis
    unfolding store_ok_iff hc assms(2,3) by blast
qed

lemma touch_forEach_store_ok:
  "store_ok s \<Longrightarrow> store_ok (state_of (touch_forEach s as res))"
proof (induction as arbitrary: s res)
  case Nil
  then show ?case by simp
next
  case (Cons a as)
  show ?case
  proof (cases "findFile s (currentDir s) (js_split CHR ''/'' a) (Some Txt)")
    case (Inl e)
    with Cons.prems show ?thesis by (simp del: findFile.simps)
  next
    case (Inr found)
    show ?thesis
    proof (cases found)
      case None
      show ?thesis
      proof (cases "newFile s (js_split CHR ''/'' a) Txt")
        case (Returns r s')
        with newFile_store_ok [OF Cons.prems, of "js_split CHR ''/'' a" Txt]
        have "store_ok s'" by simp
        then have "store_ok (state_of (touch_forEach s' as (combine res r)))"
          by (rule Cons.IH)
        then show ?thesis
          using Inr None Returns by (simp del: findFile.simps)
      next
        case (Throws e s')
        with newFile_store_ok [OF Cons.prems, of "js_split CHR ''/'' a" Txt]
        show ?thesis using Inr None by (simp del: findFile.simps)
      qed
    next
      case (Some f)
      let ?s' = "s\<lparr>heap := (heap s)[f := (heap s ! f)\<lparr>lastModified := Some (now s)\<rparr>]\<rparr>"
      have "store_ok ?s'"
        using Cons.prems by (rule store_ok_update_at) simp_all
      then have "store_ok (state_of (touch_forEach ?s' as res))"
        by (rule Cons.IH)
      then show ?thesis
        using Inr Some by (simp del: findFile.simps)
    qed
  qed
qed

lemma mkdir_forEach_store_ok:
  "store_ok s \<Longrightarrow> store_ok (state_of (mkdir_forEach s as res))"
proof (induction as arbitrary: s res)
  case Nil
  then show ?case by simp
next
  case (Cons a as)
  show ?case
  proof (cases "findFile s (currentDir s) (js_split CHR ''/'' a) (Some Dir)")
    case (Inl e)
    with Cons.prems show ?thesis by (simp del: findFile.simps)
  next
    case (Inr found)
    show ?thesis
    proof (cases found)
      case None
      show ?thesis
      proof (cases "newFile s (js_split CHR ''/'' a) Dir")
        case (Returns r s')
        with newFile_store_ok [OF Cons.prems, of "js_split CHR ''/'' a" Dir]
        have "store_ok s'" by simp
        then have "store_ok (state_of (mkdir_forEach s' as (combine res r)))"
          by (rule Cons.IH)
        then show ?thesis
          using Inr None Returns by (simp del: findFile.simps)
      next
        case (Throws e s')
        with newFile_store_ok [OF Cons.prems, of "js_split CHR ''/'' a" Dir]
        show ?thesis using Inr None by (simp del: findFile.simps)
      qed
    next
      case (Some f)
      then show ?thesis
        using Inr Cons.IH [OF Cons.prems] by (simp del: findFile.simps)
    qed
  qed
qed

lemma cd_store_ok:
  assumes "store_ok s"
  shows "store_ok (state_of (cd s cmd))"
proof -
  from assms have d: "dirs_ok s" and cur: "has_children s (currentDir s)"
    by (simp_all add: store_ok_def)
  define target where "target = (case args cmd of
              [] \<Rightarrow> Inr (Some (fileStructure s))
            | a # _ \<Rightarrow> findFile s (currentDir s) (js_split CHR ''/'' a) (Some Dir))"
  show ?thesis
  proof (cases target)
    case (Inl e)
    show ?thesis
      unfolding cd_def target_def [symmetric] Inl using assms by simp
  next
    case (Inr found)
    show ?thesis
    proof (cases found)
      case None
      show ?thesis
        unfolding cd_def target_def [symmetric] Inr None using assms by simp
    next
      case (Some dir)
      with Inr have dir: "has_children s dir"
        using findFile_dir [OF d cur] dirs_ok_root [OF d]
        by (auto simp: target_def split: list.splits)
      have "store_ok (s\<lparr>currentDir := dir,
                    PS1Element := getPS1String (s\<lparr>currentDir := dir\<rparr>)\<rparr>)"
        by (rule store_ok_session [OF assms]) (simp_all add: dir)
      then show ?thesis
        unfolding cd_def target_def [symmetric] Inr Some by (simp add: Let_def)
    qed
  qed
qed

lemma eval_command_store_ok:
  assumes "store_ok s"
  shows "store_ok (state_of (eval_command s c cmd))"
proof -
  from assms have cur: "has_children s (currentDir s)"
    by (simp add: store_ok_def)
  have session: "store_ok s'"
    if "heap s' = heap s" "fileStructure s' = fileStructure s" "currentDir s' = currentDir s" for s'
    by (rule store_ok_session [OF assms]) (simp_all add: that cur)
  have "store_ok (state_of (clear s))"
    by (simp add: clear_def session)
  moreover have "store_ok (state_of (pwd s))" "store_ok (state_of (whoami s))"
    "store_ok (state_of (echo s cmd))"
    using assms by (simp_all add: pwd_def whoami_def echo_def)
  moreover have "store_ok (state_of (cd s cmd))"
    using assms by (rule cd_store_ok)
  moreover have "store_ok (state_of (ls s cmd))"
    using assms by (auto simp: ls_def Let_def split: sum.splits)
  moreover have "store_ok (state_of (cat s cmd))"
    using assms by (auto simp: cat_def Let_def split: sum.splits)
  moreover have "store_ok (state_of (touch s cmd))"
    using assms by (simp add: touch_def Let_def touch_forEach_store_ok)
  moreover have "store_ok (state_of (mkdir s cmd))"
    using assms by (simp add: mkdir_def Let_def mkdir_forEach_store_ok)
  moreover have "store_ok (state_of (vi s cmd))"
  proof (cases "args cmd")
    case Nil
    with assms show ?thesis by (simp add: vi_def)
  next
    case (Cons a rest)
    show ?thesis
    proof (cases "findFile s (currentDir s) (js_split CHR ''/'' a) (Some Txt)")
      case (Inl e)
      with Cons assms show ?thesis by (simp add: vi_def Let_def del: findFile.simps)
    next
      case (Inr found)
      with Cons show ?thesis by (simp add: vi_def Let_def session del: findFile.simps)
    qed
  qed
  ultimately show ?thesis
    by (simp add: eval_command_def)
qed

lemma redirect_assign_store_ok:
  assumes "store_ok s"
  shows "store_ok (state_of (redirect_assign s pattern res target))"
proof -
  have "store_ok (s\<lparr>heap := (heap s)[target := (heap s ! target)\<lparr>contents := c\<rparr>]\<rparr>)" for c
    using assms by (rule store_ok_update_at) simp_all
  with assms show ?thesis
    by (auto simp: redirect_assign_def split: option.splits)
qed

lemma redirect_write_store_ok:
  assumes "store_ok s"
  shows "store_ok (state_of (redirect_write s pattern res afterSymbol))"
proof -
  define filepath where "filepath = (case afterSymbol of [] \<Rightarrow> ''undefined'' | w # _ \<Rightarrow> w)"
  show ?thesis
  proof (cases "findFile s (currentDir s) [filepath] (Some Txt)")
    case (Inl e)
    with assms show ?thesis
      by (simp add: redirect_write_def filepath_def [symmetric] del: findFile.simps)
  next
    case (Inr found)
    show ?thesis
    proof (cases found)
      case None
      show ?thesis
      proof (cases "newFile s [filepath] Txt")
        case (Returns created s')
        with newFile_store_ok [OF assms, of "[filepath]" Txt] have "store_ok s'" by simp
        then show ?thesis
          using Inr None Returns
          by (auto simp: redirect_write_def filepath_def [symmetric] split: option.splits
                   intro: redirect_assign_store_ok simp del: findFile.simps)
      next
        case (Throws e s')
        with newFile_store_ok [OF assms, of "[filepath]" Txt] show ?thesis
          using Inr None
          by (simp add: redirect_write_def filepath_def [symmetric] del: findFile.simps)
      qed
    next
      case (Some target)
      with Inr assms show ?thesis
        by (simp add: redirect_write_def filepath_def [symmetric] redirect_assign_store_ok
                 del: findFile.simps)
    qed
  qed
qed

lemma executeCommand_store_ok:
  "store_ok s \<Longrightarrow> store_ok (state_of (executeCommand s line))"
proof (induction s line rule: executeCommand.induct)
  case (1 s line)
  have step: "store_ok (state_of (redirect s line pattern))"
    if "length (redirect_afterSymbol line pattern) \<noteq> 0 \<Longrightarrow>
        store_ok (state_of (executeCommand s (redirect_newInput line pattern)))"
    for pattern
  proof (cases "length (redirect_afterSymbol line pattern) = 0")
    case True
    with "1.prems" show ?thesis by (simp add: redirect_def)
  next
    case False
    with that have inner: "store_ok (state_of (executeCommand s (redirect_newInput line pattern)))"
      by simp
    show ?thesis
    proof (cases "executeCommand s (redirect_newInput line pattern)")
      case (Returns res s')
      with inner have "store_ok s'" by simp
      then have "store_ok (state_of (redirect_write s' pattern res (redirect_afterSymbol line pattern)))"
        by (rule redirect_write_store_ok)
      with False Returns show ?thesis by (simp add: redirect_def)
    next
      case (Throws e s')
      with inner False show ?thesis by (simp add: redirect_def)
    qed
  qed
  show ?case
  proof (cases "js_includes line ''>>''")
    case True
    with "1.IH"(1) "1.prems" step [of "''>>''"] show ?thesis
      by (simp add: executeCommand_redirect)
  next
    case False
    show ?thesis
    proof (cases "js_includes line ''>''")
      case True
      with False "1.IH"(2) "1.prems" step [of "''>''"] show ?thesis
        by (simp add: executeCommand_redirect)
    next
      case no: False
      with False "1.prems" show ?thesis
        by (simp add: executeCommand_redirect run_ShellCommand_def eval_command_store_ok
                 split: option.splits)
    qed
  qed
qed

lemma after_lines_store_ok: "store_ok s \<Longrightarrow> store_ok (after_lines s lines)"
  unfolding after_lines_def
  by (induction lines arbitrary: s) (simp_all add: executeCommand_store_ok)

lemma store_ok_root_only: "store_ok root_only"
  by code_simp

lemma store_ok_children_in_store:
  assumes "store_ok s"
  shows "children_in_store s (currentDir s)"
proof -
  from assms have "has_children s (currentDir s)"
    by (simp add: store_ok_def)
  then obtain cs where cur: "currentDir s < length (heap s)"
    and cs: "children (heap s ! currentDir s) = Some cs"
    by (auto simp: has_children_def)
  from assms cur cs have "c < length (heap s)" if "c \<in> set cs" for c
    using that unfolding store_ok_iff by blast
  with cur cs show ?thesis
    by (simp add: children_in_store_def list_all_iff)
qed


lemma reachable_store_ok:
  "dirs_ok (after_lines root_only lines) \<and> parents_ok (after_lines root_only lines)
   \<and> children_in_store (after_lines root_only lines) (currentDir (after_lines root_only lines))"
proof -
  have ok: "store_ok (after_lines root_only lines)"
    using store_ok_root_only by (rule after_lines_store_ok)
  then have "children_in_store (after_lines root_only lines) (currentDir (after_lines root_only lines))"
    by (rule store_ok_children_in_store)
  with ok show ?thesis
    by (simp add: store_ok_def)
qed

section \<open>The history cursor stays in range\<close>

text \<open>
  Every keystroke keeps the history cursor within \<open>0..length bashHistory\<close>, also when
  the command run by Enter throws; so the up arrow reads an entry of the history.
\<close>

lemma handleTab_history:
  "bashHistory (state_of (handleTab s)) = bashHistory s
   \<and> historyIndex (state_of (handleTab s)) = historyIndex s"
  by (auto simp: handleTab_def printAutoCompleteOptions_def executeAutoComplete_def Let_def
           split: sum.splits prod.splits)

lemma handleEnter_history:
  assumes "historyIndex s \<le> length (bashHistory s)"
  shows "historyIndex (state_of (handleEnter s)) \<le> length (bashHistory (state_of (handleEnter s)))"
proof (cases "list_all (\<lambda>c. c = CHR '' '') (inputString s)")
  case True
  then show ?thesis by (simp add: handleEnter_def)
next
  case False
  define s2 where "s2 = s\<lparr>outputElement := outputElement s
                         @ [Print (getPS1String s @ replace_first_blank ''&nbsp;'' (inputString s))],
                       bashHistory := bashHistory s @ [inputString s]\<rparr>"
  have "same_line_state s2 (state_of (executeCommand s2 (inputString s)))"
    by (rule executeCommand_line_state)
  then have "historyIndex (state_of (executeCommand s2 (inputString s))) = historyIndex s"
    "bashHistory (state_of (executeCommand s2 (inputString s))) = bashHistory s @ [inputString s]"
    by (simp_all add: same_line_state_def s2_def)
  then show ?thesis
    using False assms
    by (cases "executeCommand s2 (inputString s)")
       (simp_all add: handleEnter_def Let_def s2_def)
qed

lemma shellKeystroke_history:
  assumes "historyIndex s \<le> length (bashHistory s)"
  shows "historyIndex (state_of (shellKeystroke s event))
           \<le> length (bashHistory (state_of (shellKeystroke s event)))"
proof -
  have "historyIndex (state_of (handleEnter (s\<lparr>tabPressed := False\<rparr>)))
          \<le> length (bashHistory (state_of (handleEnter (s\<lparr>tabPressed := False\<rparr>))))"
    using assms by (intro handleEnter_history) simp
  then show ?thesis
    using assms handleTab_history [of s]
    by (auto simp: shellKeystroke_def Let_def)
qed

end
